theory Spec2Isabelle
  imports Complex_Main "HOL-Library.Multiset"
begin

section \<open>Strings and character classes\<close>

text \<open>
  A JavaScript string is modelled as a \<^typ>\<open>string\<close>: one \<^typ>\<open>char\<close> per code unit,
  restricted to the code units below 256. The regular expression character classes
  used by the helpers are ranges of code units.
\<close>

definition is_upper :: "char \<Rightarrow> bool" where
  \<comment> \<open>the class \<open>[A-Z]\<close>\<close>
  "is_upper c = (65 \<le> (of_char c :: nat) \<and> (of_char c :: nat) \<le> 90)"

definition is_lower :: "char \<Rightarrow> bool" where
  \<comment> \<open>the class \<open>[a-z]\<close>\<close>
  "is_lower c = (97 \<le> (of_char c :: nat) \<and> (of_char c :: nat) \<le> 122)"

definition is_digit :: "char \<Rightarrow> bool" where
  \<comment> \<open>the class \<open>[0-9]\<close>\<close>
  "is_digit c = (48 \<le> (of_char c :: nat) \<and> (of_char c :: nat) \<le> 57)"

definition is_space :: "char \<Rightarrow> bool" where
  \<comment> \<open>the class \<open>\s\<close> on code units below 256: tab, line feed, vertical tab, form feed,
      carriage return, space and the no-break space\<close>
  "is_space c = ((of_char c :: nat) \<in> {9, 10, 11, 12, 13, 32, 160})"

definition test_class :: "(char \<Rightarrow> bool) \<Rightarrow> string \<Rightarrow> bool" where
  \<comment> \<open>\<open>/[...]/.test(s)\<close> for an unanchored one-character class: some code unit is in it\<close>
  "test_class cls s = list_ex cls s"

section \<open>Password validator\<close>

text \<open>
  Both validators of the helpers return an object with an \<open>isValid\<close> flag; the two result
  shapes are extensions of one record with that field.
\<close>

record validity =
  isValid :: bool

record password_result = validity +
  errors :: "string list"

definition push_if :: "bool \<Rightarrow> string \<Rightarrow> string list \<Rightarrow> string list" where
  \<comment> \<open>\<open>if (cond) { errors.push(msg) }\<close>\<close>
  "push_if cond msg errs = (if cond then errs @ [msg] else errs)"

definition err_min_length :: string where
  "err_min_length = ''Password must be at least 12 characters''"

definition err_max_length :: string where
  "err_max_length = ''Password must be at most 32 characters''"

definition err_uppercase :: string where
  "err_uppercase = ''Password must contain at least one uppercase letter''"

definition err_lowercase :: string where
  "err_lowercase = ''Password must contain at least one lowercase letter''"

definition err_number :: string where
  "err_number = ''Password must contain at least one number''"

definition password_errors :: "string \<Rightarrow> string list" where
  "password_errors password =
     push_if (\<not> test_class is_digit password) err_number
    (push_if (\<not> test_class is_lower password) err_lowercase
    (push_if (\<not> test_class is_upper password) err_uppercase
    (push_if (length password > 32) err_max_length
    (push_if (length password < 12) err_min_length []))))"

definition isValidPassword :: "string \<Rightarrow> password_result" where
  "isValidPassword password =
     (let errs = password_errors password
      in \<lparr> isValid = (length errs = 0), errors = errs \<rparr>)"

section \<open>Password generator\<close>

text \<open>
  \<open>Math.random()\<close> is an explicit source of draws: the \<open>k\<close>-th call returns \<open>rnd k\<close>,
  a number in \<open>[0, 1)\<close>. The generator makes twelve draws for its characters; the draws
  made afterwards by the comparator of \<open>sort\<close> decide the order in which the engine's
  sorting algorithm leaves the characters. That algorithm is not part of the repository,
  so the sort under the random comparator is the parameter \<open>shuffle\<close>.
\<close>

definition uppercase :: string where
  "uppercase = ''ABCDEFGHIJKLMNOPQRSTUVWXYZ''"

definition lowercase :: string where
  "lowercase = ''abcdefghijklmnopqrstuvwxyz''"

definition numbers :: string where
  "numbers = ''0123456789''"

definition allChars :: string where
  "allChars = uppercase @ lowercase @ numbers"

definition random_index :: "real \<Rightarrow> nat \<Rightarrow> nat" where
  \<comment> \<open>\<open>Math.floor(Math.random() * n)\<close> for the draw \<open>r\<close>\<close>
  "random_index r n = nat \<lfloor>r * real n\<rfloor>"

definition char_at :: "string \<Rightarrow> nat \<Rightarrow> string" where
  \<comment> \<open>\<open>s[i]\<close> as it enters a string concatenation: an index out of range reads
      \<open>undefined\<close>, which concatenates as the text "undefined"\<close>
  "char_at s i = (if i < length s then [s ! i] else ''undefined'')"

function remaining_loop :: "(nat \<Rightarrow> real) \<Rightarrow> nat \<Rightarrow> nat \<Rightarrow> string \<Rightarrow> string" where
  \<comment> \<open>the \<open>for\<close> loop; its \<open>i\<close>-th iteration makes draw number \<open>3 + i\<close>\<close>
  "remaining_loop rnd remainingLength i remaining =
     (if i < remainingLength
      then remaining_loop rnd remainingLength (Suc i)
             (remaining @ char_at allChars (random_index (rnd (3 + i)) (length allChars)))
      else remaining)"
  by pat_completeness auto
termination
  by (relation "measure (\<lambda>(rnd, n, i, acc). n - i)") auto

declare remaining_loop.simps [simp del]

definition generateValidPassword :: "(nat \<Rightarrow> real) \<Rightarrow> (string \<Rightarrow> string) \<Rightarrow> string" where
  "generateValidPassword rnd shuffle =
     (let randomUpper = char_at uppercase (random_index (rnd 0) (length uppercase));
          randomLower = char_at lowercase (random_index (rnd 1) (length lowercase));
          randomNumber = char_at numbers (random_index (rnd 2) (length numbers));
          remainingLength = 12 - 3;
          remaining = remaining_loop rnd remainingLength 0 []
      in shuffle (randomUpper @ randomLower @ randomNumber @ remaining))"

section \<open>Email validator\<close>

text \<open>
  The regular expression \<open>/^[^\s@]+@[^\s@]+\.[^\s@]+$/\<close> is a sequence of atoms between
  the anchors: a literal code unit, or one or more code units of a class. The matcher
  backtracks over the length of each repetition, as the engine does.
\<close>

datatype atom = Lit char | ClassPlus "char \<Rightarrow> bool"

fun anchored_match :: "atom list \<Rightarrow> string \<Rightarrow> bool" where
  "anchored_match [] s = (s = [])"
| "anchored_match (Lit c # r) [] = False"
| "anchored_match (Lit c # r) (x # xs) = (x = c \<and> anchored_match r xs)"
| "anchored_match (ClassPlus cls # r) [] = False"
| "anchored_match (ClassPlus cls # r) (x # xs) =
     (cls x \<and> (anchored_match (ClassPlus cls # r) xs \<or> anchored_match r xs))"

definition not_space_at :: "char \<Rightarrow> bool" where
  \<comment> \<open>the class \<open>[^\s@]\<close>\<close>
  "not_space_at c = (\<not> is_space c \<and> c \<noteq> CHR ''@'')"

definition emailRegex :: "atom list" where
  "emailRegex =
     [ClassPlus not_space_at, Lit (CHR ''@''), ClassPlus not_space_at, Lit (CHR ''.''),
      ClassPlus not_space_at]"

definition isValidEmail :: "string \<Rightarrow> bool" where
  "isValidEmail email = anchored_match emailRegex email"

section \<open>Response payloads as JavaScript values\<close>

text \<open>
  A payload is decoded JSON: \<open>null\<close>, a boolean, a number, a string, an array or an
  object. Arrays and objects carry the address they are allocated at, because \<open>===\<close>
  compares them by identity; an object lists its own properties in enumeration order.
  A number is a rational (every finite double is one), \<open>NaN\<close> or an infinity; zero has no
  sign, since \<open>===\<close>, \<open>String\<close> and \<open>JSON.stringify\<close> do not tell \<open>-0\<close> from \<open>0\<close>.

  A value is \<open>undefined\<close>, decoded JSON, or any other object, known by its address only:
  a function or a prototype of the engine, or an object that the caller built.
\<close>

datatype number = Finite rat | NaN | PosInfinity | NegInfinity

datatype json =
    JNull
  | JBool bool
  | JNum number
  | JStr string
  | JArr nat "json list"
  | JObj nat "(string \<times> json) list"

datatype jsval = Undefined | Data json | Native nat

datatype error = TypeError | FileError | Thrown string

text \<open>
  What the engine supplies is not code of the repository and is a parameter of the model:
  the member that the prototype chain of a JSON value has for a key that is not an own
  property of the value (\<open>undefined\<close> when the chain has none; an accessor on the chain may
  throw); the members, the text and the JSON text of the other objects; and the text of a
  number that is not a safe integer. Every theorem about the verifier holds for every
  engine.
\<close>

record engine =
  inherited :: "json \<Rightarrow> string \<Rightarrow> error + jsval"
  native_member :: "nat \<Rightarrow> string \<Rightarrow> error + jsval"
  native_text :: "nat \<Rightarrow> error + string"
  native_json :: "string \<Rightarrow> nat \<Rightarrow> error + string option"
  other_number_text :: "rat \<Rightarrow> string"

definition nullish :: "jsval \<Rightarrow> bool" where
  \<comment> \<open>\<open>v === undefined || v === null\<close>\<close>
  "nullish v = (v = Undefined \<or> v = Data JNull)"

subsection \<open>Text of numbers\<close>

definition digit_char :: "nat \<Rightarrow> char" where
  "digit_char d = char_of (48 + d)"

fun show_nat :: "nat \<Rightarrow> string" where
  "show_nat n = (if n < 10 then [digit_char n] else show_nat (n div 10) @ [digit_char (n mod 10)])"

declare show_nat.simps [simp del]

definition show_int :: "int \<Rightarrow> string" where
  "show_int i = (if i < 0 then CHR ''-'' # show_nat (nat (- i)) else show_nat (nat i))"

definition safe_integer :: "rat \<Rightarrow> bool" where
  \<comment> \<open>an integer of magnitude at most \<open>2^53\<close>: JavaScript writes it with all its decimal
      digits\<close>
  "safe_integer x = (x = of_int \<lfloor>x\<rfloor> \<and> \<bar>x\<bar> \<le> 2 ^ 53)"

definition number_text :: "engine \<Rightarrow> number \<Rightarrow> string" where
  \<comment> \<open>\<open>String(n)\<close> for a number\<close>
  "number_text rt n =
     (case n of
        Finite x \<Rightarrow> (if safe_integer x then show_int \<lfloor>x\<rfloor> else other_number_text rt x)
      | NaN \<Rightarrow> ''NaN''
      | PosInfinity \<Rightarrow> ''Infinity''
      | NegInfinity \<Rightarrow> ''-Infinity'')"

definition number_json :: "engine \<Rightarrow> number \<Rightarrow> string" where
  \<comment> \<open>\<open>JSON.stringify(n)\<close> for a number: a number that is not finite is written \<open>null\<close>\<close>
  "number_json rt n = (case n of Finite x \<Rightarrow> number_text rt n | _ \<Rightarrow> ''null'')"

subsection \<open>Property access and field resolution\<close>

definition index_key :: "string \<Rightarrow> nat \<Rightarrow> nat option" where
  \<comment> \<open>the index below \<open>n\<close> that the key \<open>key\<close> names, if any: an index property is named
      by the decimal text of the index\<close>
  "index_key key n = find (\<lambda>i. show_nat i = key) [0..<n]"

fun own_member :: "json \<Rightarrow> string \<Rightarrow> json option" where
  \<comment> \<open>the own property \<open>key\<close> of a JSON value: a string and an array have \<open>length\<close> and
      their indices, an object has its keys, the other values have none\<close>
  "own_member (JStr s) key =
     (if key = ''length'' then Some (JNum (Finite (of_nat (length s))))
      else map_option (\<lambda>i. JStr [s ! i]) (index_key key (length s)))"
| "own_member (JArr a xs) key =
     (if key = ''length'' then Some (JNum (Finite (of_nat (length xs))))
      else map_option (\<lambda>i. xs ! i) (index_key key (length xs)))"
| "own_member (JObj a fs) key = map_of fs key"
| "own_member JNull key = None"
| "own_member (JBool b) key = None"
| "own_member (JNum n) key = None"

fun get_member :: "engine \<Rightarrow> jsval \<Rightarrow> string \<Rightarrow> error + jsval" where
  \<comment> \<open>\<open>v[key]\<close>: reading a property of \<open>undefined\<close> or \<open>null\<close> throws; an own property
      shadows the prototype chain\<close>
  "get_member rt Undefined key = Inl TypeError"
| "get_member rt (Data d) key =
     (if d = JNull then Inl TypeError
      else case own_member d key of
             Some v \<Rightarrow> Inr (Data v)
           | None \<Rightarrow> inherited rt d key)"
| "get_member rt (Native obj) key = native_member rt obj key"

definition opt_member :: "engine \<Rightarrow> jsval \<Rightarrow> string \<Rightarrow> error + jsval" where
  \<comment> \<open>\<open>current?.[key]\<close>\<close>
  "opt_member rt current key =
     (if nullish current then Inr Undefined else get_member rt current key)"

fun split_dot :: "string \<Rightarrow> string list" where
  \<comment> \<open>\<open>path.split('.')\<close>\<close>
  "split_dot [] = [[]]"
| "split_dot (c # cs) =
     (if c = CHR ''.'' then [] # split_dot cs
      else case split_dot cs of [] \<Rightarrow> [[c]] | p # ps \<Rightarrow> (c # p) # ps)"

fun reduce_members :: "engine \<Rightarrow> jsval \<Rightarrow> string list \<Rightarrow> error + jsval" where
  \<comment> \<open>\<open>keys.reduce((current, key) => current?.[key], obj)\<close>; a throw ends the reduction\<close>
  "reduce_members rt current [] = Inr current"
| "reduce_members rt current (key # keys) =
     (case opt_member rt current key of
        Inl e \<Rightarrow> Inl e
      | Inr v \<Rightarrow> reduce_members rt v keys)"

definition getNestedValue :: "engine \<Rightarrow> jsval \<Rightarrow> string \<Rightarrow> error + jsval" where
  "getNestedValue rt obj path = reduce_members rt obj (split_dot path)"

subsection \<open>Strict equality, text conversion and substring test\<close>

fun number_eq :: "number \<Rightarrow> number \<Rightarrow> bool" where
  \<comment> \<open>\<open>===\<close> on numbers: \<open>NaN\<close> equals nothing, not even itself\<close>
  "number_eq (Finite a) (Finite b) = (a = b)"
| "number_eq PosInfinity PosInfinity = True"
| "number_eq NegInfinity NegInfinity = True"
| "number_eq _ _ = False"

fun json_eq :: "json \<Rightarrow> json \<Rightarrow> bool" where
  \<comment> \<open>\<open>===\<close> on JSON values: arrays and objects are equal when they are the same
      allocation\<close>
  "json_eq JNull JNull = True"
| "json_eq (JBool a) (JBool b) = (a = b)"
| "json_eq (JNum a) (JNum b) = number_eq a b"
| "json_eq (JStr a) (JStr b) = (a = b)"
| "json_eq (JArr a xs) (JArr b ys) = (a = b)"
| "json_eq (JObj a fs) (JObj b gs) = (a = b)"
| "json_eq _ _ = False"

fun strict_eq :: "jsval \<Rightarrow> jsval \<Rightarrow> bool" where
  \<comment> \<open>\<open>a === b\<close>\<close>
  "strict_eq Undefined Undefined = True"
| "strict_eq (Data a) (Data b) = json_eq a b"
| "strict_eq (Native a) (Native b) = (a = b)"
| "strict_eq _ _ = False"

fun join :: "string \<Rightarrow> string list \<Rightarrow> string" where
  "join sep [] = []"
| "join sep [x] = x"
| "join sep (x # y # ys) = x @ sep @ join sep (y # ys)"

fun json_to_string :: "engine \<Rightarrow> json \<Rightarrow> error + string"
  and element_texts :: "engine \<Rightarrow> json list \<Rightarrow> error + string list" where
  \<comment> \<open>\<open>String(v)\<close> and \<open>${v}\<close> for a JSON value. An array is the comma-joined text of its
      elements, with \<open>null\<close> elements empty. An object answers through the inherited
      \<open>toString\<close>, unless it has an own property of that name: in decoded JSON that
      property is never a function, and the conversion throws\<close>
  "json_to_string rt JNull = Inr ''null''"
| "json_to_string rt (JBool b) = Inr (if b then ''true'' else ''false'')"
| "json_to_string rt (JNum n) = Inr (number_text rt n)"
| "json_to_string rt (JStr s) = Inr s"
| "json_to_string rt (JArr a xs) =
     (case element_texts rt xs of Inl e \<Rightarrow> Inl e | Inr ts \<Rightarrow> Inr (join '','' ts))"
| "json_to_string rt (JObj a fs) =
     (if map_of fs ''toString'' = None then Inr ''[object Object]'' else Inl TypeError)"
| "element_texts rt [] = Inr []"
| "element_texts rt (x # xs) =
     (case (if x = JNull then Inr [] else json_to_string rt x) of
        Inl e \<Rightarrow> Inl e
      | Inr t \<Rightarrow> (case element_texts rt xs of Inl e \<Rightarrow> Inl e | Inr ts \<Rightarrow> Inr (t # ts)))"

definition to_string :: "engine \<Rightarrow> jsval \<Rightarrow> error + string" where
  \<comment> \<open>\<open>String(v)\<close> and \<open>${v}\<close>\<close>
  "to_string rt v =
     (case v of
        Undefined \<Rightarrow> Inr ''undefined''
      | Data d \<Rightarrow> json_to_string rt d
      | Native obj \<Rightarrow> native_text rt obj)"

fun starts_with :: "string \<Rightarrow> string \<Rightarrow> bool" where
  \<comment> \<open>\<open>s.startsWith(p)\<close>\<close>
  "starts_with s [] = True"
| "starts_with [] (p # ps) = False"
| "starts_with (c # cs) (p # ps) = (c = p \<and> starts_with cs ps)"

fun str_includes :: "string \<Rightarrow> string \<Rightarrow> bool" where
  \<comment> \<open>\<open>s.includes(sub)\<close>\<close>
  "str_includes [] sub = (sub = [])"
| "str_includes (c # cs) sub = (starts_with (c # cs) sub \<or> str_includes cs sub)"

subsection \<open>JSON text\<close>

definition hex_digit :: "nat \<Rightarrow> char" where
  "hex_digit d = (if d < 10 then char_of (48 + d) else char_of (87 + d))"

definition json_escape :: "char \<Rightarrow> string" where
  \<comment> \<open>one code unit inside a quoted JSON string\<close>
  "json_escape c =
     (let n = (of_char c :: nat) in
      if n = 8 then [CHR 0x5C, CHR ''b'']
      else if n = 9 then [CHR 0x5C, CHR ''t'']
      else if n = 10 then [CHR 0x5C, CHR ''n'']
      else if n = 12 then [CHR 0x5C, CHR ''f'']
      else if n = 13 then [CHR 0x5C, CHR ''r'']
      else if n = 34 then [CHR 0x5C, CHR 0x22]
      else if n = 92 then [CHR 0x5C, CHR 0x5C]
      else if n < 32 then [CHR 0x5C, CHR ''u'', CHR ''0'', CHR ''0'', hex_digit (n div 16), hex_digit (n mod 16)]
      else [c])"

definition json_quote :: "string \<Rightarrow> string" where
  "json_quote s = CHR 0x22 # concat (map json_escape s) @ [CHR 0x22]"

definition json_wrap :: "string \<Rightarrow> string \<Rightarrow> string \<Rightarrow> string \<Rightarrow> string list \<Rightarrow> string" where
  \<comment> \<open>the layout of an array or object: \<open>stepback\<close> is the indentation of the enclosing
      level and \<open>gap\<close> the indentation unit\<close>
  "json_wrap opening closing gap stepback partial =
     (if partial = [] then opening @ closing
      else if gap = [] then opening @ join '','' partial @ closing
      else opening @ [CHR 0x0A] @ (stepback @ gap)
           @ join ('','' @ [CHR 0x0A] @ (stepback @ gap)) partial
           @ [CHR 0x0A] @ stepback @ closing)"

fun stringify :: "engine \<Rightarrow> string \<Rightarrow> string \<Rightarrow> json \<Rightarrow> string"
  and stringify_items :: "engine \<Rightarrow> string \<Rightarrow> string \<Rightarrow> json list \<Rightarrow> string list"
  and stringify_members ::
    "engine \<Rightarrow> string \<Rightarrow> string \<Rightarrow> (string \<times> json) list \<Rightarrow> string list" where
  \<comment> \<open>\<open>JSON.stringify\<close> of a JSON value with indentation unit \<open>gap\<close>, at indentation
      \<open>ind\<close>\<close>
  "stringify rt gap ind JNull = ''null''"
| "stringify rt gap ind (JBool b) = (if b then ''true'' else ''false'')"
| "stringify rt gap ind (JNum n) = number_json rt n"
| "stringify rt gap ind (JStr s) = json_quote s"
| "stringify rt gap ind (JArr a xs) =
     json_wrap ''['' '']'' gap ind (stringify_items rt gap (ind @ gap) xs)"
| "stringify rt gap ind (JObj a fs) =
     json_wrap ''{'' ''}'' gap ind (stringify_members rt gap (ind @ gap) fs)"
| "stringify_items rt gap ind [] = []"
| "stringify_items rt gap ind (x # xs) =
     stringify rt gap ind x # stringify_items rt gap ind xs"
| "stringify_members rt gap ind [] = []"
| "stringify_members rt gap ind ((k, v) # fs) =
     (json_quote k @ '':'' @ (if gap = [] then [] else '' '') @ stringify rt gap ind v)
     # stringify_members rt gap ind fs"

definition json_text :: "engine \<Rightarrow> string \<Rightarrow> jsval \<Rightarrow> error + string" where
  \<comment> \<open>\<open>JSON.stringify(v, null, gap)\<close> as a template literal embeds it: the result
      \<open>undefined\<close> reads "undefined"\<close>
  "json_text rt gap v =
     (case v of
        Undefined \<Rightarrow> Inr ''undefined''
      | Data d \<Rightarrow> Inr (stringify rt gap [] d)
      | Native obj \<Rightarrow>
          (case native_json rt gap obj of
             Inl e \<Rightarrow> Inl e
           | Inr None \<Rightarrow> Inr ''undefined''
           | Inr (Some t) \<Rightarrow> Inr t))"

section \<open>Response verifier\<close>

datatype comparison = Equals | Contains | Defined

record verification = validity +
  errorMessage :: string

definition verifyResponseBodyValue ::
  "engine \<Rightarrow> jsval \<Rightarrow> string \<Rightarrow> jsval \<Rightarrow> comparison option \<Rightarrow> error + verification" where
  \<comment> \<open>the last argument is \<open>None\<close> when the caller omits it\<close>
  "verifyResponseBodyValue rt responseBody fieldPath expectedValue comparison_arg =
     (let comparison = (case comparison_arg of None \<Rightarrow> Contains | Some c \<Rightarrow> c) in
      case getNestedValue rt responseBody fieldPath of
        Inl e \<Rightarrow> Inl e
      | Inr fieldValue \<Rightarrow>
     (case json_text rt ''  '' responseBody of
        Inl e \<Rightarrow> Inl e
      | Inr fullResponse \<Rightarrow>
          if comparison = Defined then
            (let valid = (fieldValue \<noteq> Undefined \<and> fieldValue \<noteq> Data JNull) in
             Inr \<lparr> isValid = valid,
                   errorMessage =
                     (if valid then ''''
                      else fieldPath @ '' is missing or undefined. Full response: ''
                           @ fullResponse) \<rparr>)
          else if fieldValue = Undefined \<or> fieldValue = Data JNull then
            (case json_text rt [] expectedValue of
               Inl e \<Rightarrow> Inl e
             | Inr expectedJson \<Rightarrow>
                 Inr \<lparr> isValid = False,
                       errorMessage =
                         fieldPath @ '' is missing. Expected: '' @ expectedJson
                         @ '', but field is undefined. Full response: '' @ fullResponse \<rparr>)
          else if comparison = Equals then
            (let valid = strict_eq fieldValue expectedValue in
             if valid then Inr \<lparr> isValid = valid, errorMessage = '''' \<rparr>
             else case to_string rt expectedValue of
                    Inl e \<Rightarrow> Inl e
                  | Inr expectedText \<Rightarrow>
                     (case to_string rt fieldValue of
                        Inl e \<Rightarrow> Inl e
                      | Inr fieldText \<Rightarrow>
                          Inr \<lparr> isValid = valid,
                                errorMessage =
                                  ''Expected '' @ fieldPath @ '' to equal '' @ [CHR 0x22]
                                  @ expectedText @ [CHR 0x22] @ '', but got '' @ [CHR 0x22]
                                  @ fieldText @ [CHR 0x22] @ ''. Full response: ''
                                  @ fullResponse \<rparr>))
          else
            (case to_string rt fieldValue of
               Inl e \<Rightarrow> Inl e
             | Inr fieldStr \<Rightarrow>
                (case to_string rt expectedValue of
                   Inl e \<Rightarrow> Inl e
                 | Inr expectedStr \<Rightarrow>
                    (let valid = str_includes fieldStr expectedStr in
                     Inr \<lparr> isValid = valid,
                           errorMessage =
                             (if valid then ''''
                              else ''Expected '' @ fieldPath @ '' to contain '' @ [CHR 0x22]
                                   @ expectedStr @ [CHR 0x22] @ '', but got '' @ [CHR 0x22]
                                   @ fieldStr @ [CHR 0x22] @ ''. Full response: ''
                                   @ fullResponse) \<rparr>)))))"

section \<open>Province catalog\<close>

datatype ProvinceKey =
    ONTARIO
  | QUEBEC
  | ALBERTA
  | BRITISH_COLUMBIA
  | MANITOBA
  | NEW_BRUNSWICK
  | NOVA_SCOTIA
  | NEWFOUNDLAND
  | PRINCE_EDWARD_ISLAND
  | SASKATCHEWAN
  | NORTHWEST_TERRITORIES
  | YUKON
  | NUNAVUT

fun PROVINCE_CODES :: "ProvinceKey \<Rightarrow> string" where
  "PROVINCE_CODES ONTARIO = ''ON''"
| "PROVINCE_CODES QUEBEC = ''QC''"
| "PROVINCE_CODES ALBERTA = ''AB''"
| "PROVINCE_CODES BRITISH_COLUMBIA = ''BC''"
| "PROVINCE_CODES MANITOBA = ''MB''"
| "PROVINCE_CODES NEW_BRUNSWICK = ''NB''"
| "PROVINCE_CODES NOVA_SCOTIA = ''NS''"
| "PROVINCE_CODES NEWFOUNDLAND = ''NL''"
| "PROVINCE_CODES PRINCE_EDWARD_ISLAND = ''PE''"
| "PROVINCE_CODES SASKATCHEWAN = ''SK''"
| "PROVINCE_CODES NORTHWEST_TERRITORIES = ''NT''"
| "PROVINCE_CODES YUKON = ''YT''"
| "PROVINCE_CODES NUNAVUT = ''NU''"

definition province_keys :: "ProvinceKey list" where
  \<comment> \<open>\<open>Object.keys(PROVINCE_CODES)\<close>: the keys in the order the literal declares them\<close>
  "province_keys =
     [ONTARIO, QUEBEC, ALBERTA, BRITISH_COLUMBIA, MANITOBA, NEW_BRUNSWICK, NOVA_SCOTIA,
      NEWFOUNDLAND, PRINCE_EDWARD_ISLAND, SASKATCHEWAN, NORTHWEST_TERRITORIES, YUKON, NUNAVUT]"

record LocalizedProvince =
  key :: ProvinceKey
  name :: string
  code :: string

text \<open>
  The catalog functions accept any object with a \<open>provinces\<close> field of type
  \<open>Record<ProvinceKey, string>\<close>: a record with that field, which the locale configuration
  extends.
\<close>

record provinces_config =
  provinces :: "ProvinceKey \<Rightarrow> string"

definition getLocalizedProvince ::
  "ProvinceKey \<Rightarrow> 'a provinces_config_scheme \<Rightarrow> LocalizedProvince" where
  "getLocalizedProvince provinceKey localeConfig =
     \<lparr> key = provinceKey,
       name = provinces localeConfig provinceKey,
       code = PROVINCE_CODES provinceKey \<rparr>"

definition getAllLocalizedProvinces :: "'a provinces_config_scheme \<Rightarrow> LocalizedProvince list" where
  "getAllLocalizedProvinces localeConfig =
     map (\<lambda>k. getLocalizedProvince k localeConfig) province_keys"

definition getProvinceCodeFromName :: "string \<Rightarrow> 'a provinces_config_scheme \<Rightarrow> string" where
  \<comment> \<open>\<open>province?.code || ''\<close>: no province, or an empty code, gives the empty string\<close>
  "getProvinceCodeFromName provinceName localeConfig =
     (case find (\<lambda>p. name p = provinceName) (getAllLocalizedProvinces localeConfig) of
        None \<Rightarrow> ''''
      | Some province \<Rightarrow> (if code province = '''' then '''' else code province))"

section \<open>Locale configuration loader\<close>

text \<open>
  The \<open>i18n\<close> directory holds one document per locale and section. A document is typed
  as the \<open>LocaleConfig\<close> interface declares its section; a file that is missing or is not
  JSON makes \<open>readFileSync\<close> or \<open>JSON.parse\<close> throw, and is \<open>None\<close> here. The labels
  of the signup section play no part in resolution and stay a type parameter.
\<close>

datatype Locale = en | fr

record url_templates =
  signup :: string
  login :: string
  termsOfService :: string

record url_section = url_templates +
  baseUrl :: string

record 'l LocaleConfig = provinces_config +
  signup_labels :: 'l
  urls :: url_section

record 'l i18n_files =
  signup_json :: "Locale \<Rightarrow> 'l option"
  provinces_json :: "Locale \<Rightarrow> (ProvinceKey \<Rightarrow> string) option"
  urls_json :: "Locale \<Rightarrow> url_templates option"

definition loadJsonFile :: "(Locale \<Rightarrow> 'a option) \<Rightarrow> Locale \<Rightarrow> error + 'a" where
  "loadJsonFile file locale =
     (case file locale of None \<Rightarrow> Inl FileError | Some fileData \<Rightarrow> Inr fileData)"

definition ends_with_slash :: "string \<Rightarrow> bool" where
  \<comment> \<open>\<open>s.endsWith('/')\<close>\<close>
  "ends_with_slash s = (s \<noteq> [] \<and> last s = CHR ''/'')"

definition loadLocaleConfig ::
  "'l i18n_files \<Rightarrow> Locale \<Rightarrow> string option \<Rightarrow> error + 'l LocaleConfig" where
  \<comment> \<open>the base URL is \<open>None\<close> when the caller omits it; the result is the value the
      returned promise settles with\<close>
  "loadLocaleConfig files locale baseUrl_arg =
     (case loadJsonFile (signup_json files) locale of
        Inl e \<Rightarrow> Inl e
      | Inr signup_doc \<Rightarrow>
     (case loadJsonFile (provinces_json files) locale of
        Inl e \<Rightarrow> Inl e
      | Inr provinces_doc \<Rightarrow>
     (case loadJsonFile (urls_json files) locale of
        Inl e \<Rightarrow> Inl e
      | Inr urls_doc \<Rightarrow>
         (let config =
                \<lparr> provinces = provinces_doc,
                  signup_labels = signup_doc,
                  urls = \<lparr> signup = signup urls_doc,
                           login = login urls_doc,
                           termsOfService = termsOfService urls_doc,
                           baseUrl = (case baseUrl_arg of None \<Rightarrow> '''' | Some b \<Rightarrow> b) \<rparr> \<rparr>
          in case baseUrl_arg of
               None \<Rightarrow> Inr config
             | Some b \<Rightarrow>
                 if b = [] then Inr config
                 else
                   (let base = (if ends_with_slash b then butlast b else b) in
                    Inr (config \<lparr> urls :=
                           \<lparr> signup = base @ signup urls_doc,
                             login = base @ login urls_doc,
                             termsOfService =
                               (if starts_with (termsOfService urls_doc) ''http''
                                then termsOfService urls_doc
                                else ''https://www.nesto.ca'' @ termsOfService urls_doc),
                             baseUrl = base \<rparr> \<rparr>))))))"

definition loaded_urls ::
  "'l i18n_files \<Rightarrow> Locale \<Rightarrow> string option \<Rightarrow> error + url_section" where
  \<comment> \<open>the URL section of the configuration that a load returns\<close>
  "loaded_urls files locale baseUrl_arg =
     (case loadLocaleConfig files locale baseUrl_arg of
        Inl e \<Rightarrow> Inl e
      | Inr config \<Rightarrow> Inr (urls config))"

text \<open>
  The resolution rule in the words of the specification, for comparison with the loader:
  the trailing slash of the base is stripped, a template is concatenated onto the
  normalized base, and a template that is already absolute is passed through unchanged.
\<close>

definition spec_resolved_url :: "string \<Rightarrow> string \<Rightarrow> string" where
  "spec_resolved_url base_arg template =
     (if starts_with template ''http'' then template
      else (if ends_with_slash base_arg then butlast base_arg else base_arg) @ template)"

section \<open>Example inputs\<close>

definition error_payload :: json where
  \<comment> \<open>\<open>{error: "invalid password"}\<close>\<close>
  "error_payload = JObj 0 [(''error'', JStr ''invalid password'')]"

definition oauth_payload :: json where
  \<comment> \<open>\<open>{oauth: {access_token: "x"}}\<close>\<close>
  "oauth_payload = JObj 0 [(''oauth'', JObj 1 [(''access_token'', JStr ''x'')])]"

definition count_payload :: json where
  \<comment> \<open>\<open>{a: 5}\<close>\<close>
  "count_payload = JObj 0 [(''a'', JNum (Finite 5))]"

text \<open>
  A sample engine, for the examples: the part of a standard engine that they read. Every
  JSON value inherits \<open>constructor\<close> from its prototype (the functions \<open>Object\<close>,
  \<open>Boolean\<close>, \<open>Number\<close>, \<open>String\<close> and \<open>Array\<close>, at the addresses 0 to 4) and nothing
  else; such a function has the member \<open>name\<close>, its source as text, and no JSON text.
  The examples hold no number outside the safe integers, and the sample gives such a
  number an empty text.
\<close>

definition constructor_names :: "string list" where
  "constructor_names = [''Object'', ''Boolean'', ''Number'', ''String'', ''Array'']"

fun constructor_of :: "json \<Rightarrow> nat" where
  "constructor_of (JBool b) = 1"
| "constructor_of (JNum n) = 2"
| "constructor_of (JStr s) = 3"
| "constructor_of (JArr a xs) = 4"
| "constructor_of (JObj a fs) = 0"
| "constructor_of JNull = 0"

definition sample_engine :: engine where
  "sample_engine =
     \<lparr> inherited =
         (\<lambda>d k. if k = ''constructor'' then Inr (Native (constructor_of d)) else Inr Undefined),
       native_member =
         (\<lambda>obj k. if k = ''name'' \<and> obj < 5 then Inr (Data (JStr (constructor_names ! obj)))
                  else Inr Undefined),
       native_text =
         (\<lambda>obj. if obj < 5
                then Inr (''function '' @ constructor_names ! obj @ ''() { [native code] }'')
                else Inr ''[object Object]''),
       native_json = (\<lambda>gap obj. if obj < 5 then Inr None else Inr (Some ''{}'')),
       other_number_text = (\<lambda>x. []) \<rparr>"

definition sample_names :: "ProvinceKey \<Rightarrow> string" where
  \<comment> \<open>a provinces document: every name is the code followed by a dash\<close>
  "sample_names k = PROVINCE_CODES k @ ''-''"

definition sample_files :: "unit i18n_files" where
  \<comment> \<open>an \<open>i18n\<close> directory with the three documents of \<open>en\<close> only\<close>
  "sample_files =
     \<lparr> signup_json = (\<lambda>l. if l = en then Some () else None),
       provinces_json = (\<lambda>l. if l = en then Some sample_names else None),
       urls_json = (\<lambda>l. if l = en
                         then Some \<lparr> signup = ''/signup'', login = ''/login'',
                                     termsOfService = ''/terms'' \<rparr>
                         else None) \<rparr>"

section \<open>Properties of the password validator\<close>

lemma err_messages_distinct:
  "distinct [err_min_length, err_max_length, err_uppercase, err_lowercase, err_number]"
  by (simp add: err_min_length_def err_max_length_def err_uppercase_def err_lowercase_def
      err_number_def)

lemma test_class_iff: "test_class cls s = (\<exists>c\<in>set s. cls c)"
  by (simp add: test_class_def list_ex_iff)

lemma password_errors_eq:
  "password_errors p =
     (if length p < 12 then [err_min_length] else [])
   @ (if length p > 32 then [err_max_length] else [])
   @ (if test_class is_upper p then [] else [err_uppercase])
   @ (if test_class is_lower p then [] else [err_lowercase])
   @ (if test_class is_digit p then [] else [err_number])"
  by (simp add: password_errors_def push_if_def)

lemma password_errors_nil:
  "length p = 12 \<Longrightarrow> \<exists>c\<in>set p. is_upper c \<Longrightarrow> \<exists>c\<in>set p. is_lower c
   \<Longrightarrow> \<exists>c\<in>set p. is_digit c \<Longrightarrow> password_errors p = []"
  by (simp add: password_errors_eq test_class_iff)

text \<open>
  C3. For every password, the validator reports it valid exactly when its length is
  between 12 and 32 inclusive and it holds an uppercase ASCII letter, a lowercase ASCII
  letter and a digit. The error list holds the entry of a rule exactly when that rule is
  violated, for all five rules at once (minimum length, maximum length, missing
  uppercase, missing lowercase, missing digit), holds nothing else and no entry twice,
  and the password is valid exactly when the list is empty.
\<close>

theorem password_validator_rules:
  "(isValid (isValidPassword p) \<longleftrightarrow>
      12 \<le> length p \<and> length p \<le> 32
      \<and> (\<exists>c\<in>set p. is_upper c) \<and> (\<exists>c\<in>set p. is_lower c) \<and> (\<exists>c\<in>set p. is_digit c))
   \<and> (isValid (isValidPassword p) \<longleftrightarrow> errors (isValidPassword p) = [])
   \<and> (err_min_length \<in> set (errors (isValidPassword p)) \<longleftrightarrow> length p < 12)
   \<and> (err_max_length \<in> set (errors (isValidPassword p)) \<longleftrightarrow> length p > 32)
   \<and> (err_uppercase \<in> set (errors (isValidPassword p)) \<longleftrightarrow> \<not> (\<exists>c\<in>set p. is_upper c))
   \<and> (err_lowercase \<in> set (errors (isValidPassword p)) \<longleftrightarrow> \<not> (\<exists>c\<in>set p. is_lower c))
   \<and> (err_number \<in> set (errors (isValidPassword p)) \<longleftrightarrow> \<not> (\<exists>c\<in>set p. is_digit c))
   \<and> set (errors (isValidPassword p))
        \<subseteq> {err_min_length, err_max_length, err_uppercase, err_lowercase, err_number}
   \<and> distinct (errors (isValidPassword p))"
proof -
  have e: "errors (isValidPassword p) = password_errors p"
    and v: "isValid (isValidPassword p) \<longleftrightarrow> password_errors p = []"
    by (simp_all add: isValidPassword_def Let_def)
  note d = err_messages_distinct
  have 1: "password_errors p = [] \<longleftrightarrow>
      12 \<le> length p \<and> length p \<le> 32
      \<and> (\<exists>c\<in>set p. is_upper c) \<and> (\<exists>c\<in>set p. is_lower c) \<and> (\<exists>c\<in>set p. is_digit c)"
    by (auto simp: password_errors_eq test_class_iff)
  have 2: "err_min_length \<in> set (password_errors p) \<longleftrightarrow> length p < 12"
    using d by (auto simp: password_errors_eq)
  have 3: "err_max_length \<in> set (password_errors p) \<longleftrightarrow> length p > 32"
    using d by (auto simp: password_errors_eq)
  have 4: "err_uppercase \<in> set (password_errors p) \<longleftrightarrow> \<not> (\<exists>c\<in>set p. is_upper c)"
    using d by (auto simp: password_errors_eq test_class_iff)
  have 5: "err_lowercase \<in> set (password_errors p) \<longleftrightarrow> \<not> (\<exists>c\<in>set p. is_lower c)"
    using d by (auto simp: password_errors_eq test_class_iff)
  have 6: "err_number \<in> set (password_errors p) \<longleftrightarrow> \<not> (\<exists>c\<in>set p. is_digit c)"
    using d by (auto simp: password_errors_eq test_class_iff)
  have 7: "set (password_errors p)
        \<subseteq> {err_min_length, err_max_length, err_uppercase, err_lowercase, err_number}"
    by (auto simp: password_errors_eq)
  have 8: "distinct (password_errors p)"
    using d by (auto simp: password_errors_eq)
  show ?thesis
    unfolding e v using 1 2 3 4 5 6 7 8 by blast
qed

text \<open>
  The theorem at two passwords: one that meets every rule, and \<open>"Short1"\<close>, which is
  too short.
\<close>

theorem password_validator_rules_witness:
  "isValid (isValidPassword ''Abcdefghijk1'')
   \<and> errors (isValidPassword ''Abcdefghijk1'') = []
   \<and> \<not> isValid (isValidPassword ''Short1'')
   \<and> err_min_length \<in> set (errors (isValidPassword ''Short1''))"
  using password_validator_rules [of "''Abcdefghijk1''"]
    password_validator_rules [of "''Short1''"]
  by (auto simp add: is_upper_def is_lower_def is_digit_def)

text \<open>The passwords that the specification lists, with all their violations.\<close>

lemma password_examples:
  "isValidPassword ''Short1'' = \<lparr> isValid = False, errors = [err_min_length] \<rparr>"
  "isValidPassword (replicate 33 (CHR ''A'') @ ''1'')
     = \<lparr> isValid = False, errors = [err_max_length, err_lowercase] \<rparr>"
  "isValidPassword ''12characters12'' = \<lparr> isValid = False, errors = [err_uppercase] \<rparr>"
  "isValidPassword ''12CHARACTERS12'' = \<lparr> isValid = False, errors = [err_lowercase] \<rparr>"
  "isValidPassword ''NoNumberinPasswordHere'' = \<lparr> isValid = False, errors = [err_number] \<rparr>"
  by (simp_all add: isValidPassword_def password_errors_eq test_class_def
      is_upper_def is_lower_def is_digit_def eval_nat_numeral)

section \<open>Properties of the password generator\<close>

lemma random_index_less:
  assumes "0 \<le> r" "r < 1" "0 < n"
  shows "random_index r n < n"
proof -
  have "r * real n < real n" using assms by simp
  then have "\<lfloor>r * real n\<rfloor> < int n" by (simp add: floor_less_iff)
  moreover have "0 \<le> \<lfloor>r * real n\<rfloor>" using assms by simp
  ultimately show ?thesis by (simp add: random_index_def nat_less_iff)
qed

lemma char_at_in_range:
  "i < length s \<Longrightarrow> length (char_at s i) = 1 \<and> set (char_at s i) \<subseteq> set s"
  by (simp add: char_at_def)

lemma char_at_single:
  "i < length s \<Longrightarrow> \<exists>c \<in> set s. char_at s i = [c]"
  by (auto simp: char_at_def)

lemma remaining_loop_props:
  assumes "\<forall>k. i \<le> k \<and> k < n \<longrightarrow> 0 \<le> rnd (3 + k) \<and> rnd (3 + k) < 1"
  shows "length (remaining_loop rnd n i acc) = length acc + (n - i)
         \<and> set (remaining_loop rnd n i acc) \<subseteq> set acc \<union> set allChars"
  using assms
proof (induction rnd n i acc rule: remaining_loop.induct)
  case (1 rnd n i acc)
  show ?case
  proof (cases "i < n")
    case False
    then show ?thesis by (simp add: remaining_loop.simps[of rnd n i acc])
  next
    case True
    let ?pick = "char_at allChars (random_index (rnd (3 + i)) (length allChars))"
    have r: "0 \<le> rnd (3 + i) \<and> rnd (3 + i) < 1" using "1.prems" True by simp
    have "0 < length allChars" by (simp add: allChars_def uppercase_def)
    then have "random_index (rnd (3 + i)) (length allChars) < length allChars"
      using r by (simp add: random_index_less)
    then have p: "length ?pick = 1 \<and> set ?pick \<subseteq> set allChars"
      by (rule char_at_in_range)
    have "\<forall>k. Suc i \<le> k \<and> k < n \<longrightarrow> 0 \<le> rnd (3 + k) \<and> rnd (3 + k) < 1"
      using "1.prems" by simp
    from "1.IH"[OF True this] p True show ?thesis
      by (auto simp: remaining_loop.simps[of rnd n i acc])
  qed
qed

lemma uppercase_chars: "c \<in> set uppercase \<Longrightarrow> is_upper c"
  by (auto simp: uppercase_def is_upper_def)

lemma lowercase_chars: "c \<in> set lowercase \<Longrightarrow> is_lower c"
  by (auto simp: lowercase_def is_lower_def)

lemma numbers_chars: "c \<in> set numbers \<Longrightarrow> is_digit c"
  by (auto simp: numbers_def is_digit_def)

text \<open>
  C4. Whatever the random draws are (each a number in \<open>[0, 1)\<close>, as \<open>Math.random\<close>
  returns) and whatever order the sort under the random comparator leaves the characters
  in (it returns a permutation of them), the generated password has length exactly 12,
  holds an uppercase letter, a lowercase letter and a digit, and the password validator
  accepts it with no violation.
\<close>

theorem generated_password_valid:
  assumes draws: "\<forall>k<12. 0 \<le> rnd k \<and> rnd k < 1"
    and perm: "\<forall>s. mset (shuffle s) = mset s"
  shows "length (generateValidPassword rnd shuffle) = 12
       \<and> (\<exists>c\<in>set (generateValidPassword rnd shuffle). is_upper c)
       \<and> (\<exists>c\<in>set (generateValidPassword rnd shuffle). is_lower c)
       \<and> (\<exists>c\<in>set (generateValidPassword rnd shuffle). is_digit c)
       \<and> isValid (isValidPassword (generateValidPassword rnd shuffle))
       \<and> errors (isValidPassword (generateValidPassword rnd shuffle)) = []"
proof -
  let ?u = "char_at uppercase (random_index (rnd 0) (length uppercase))"
  let ?l = "char_at lowercase (random_index (rnd 1) (length lowercase))"
  let ?d = "char_at numbers (random_index (rnd 2) (length numbers))"
  let ?r = "remaining_loop rnd 9 0 []"
  let ?raw = "?u @ ?l @ ?d @ ?r"
  have pw: "generateValidPassword rnd shuffle = shuffle ?raw"
    by (simp add: generateValidPassword_def Let_def)
  have "random_index (rnd 0) (length uppercase) < length uppercase"
    using draws by (intro random_index_less) (simp_all add: uppercase_def)
  then obtain cu where cu: "cu \<in> set uppercase" "?u = [cu]"
    using char_at_single by blast
  have "random_index (rnd 1) (length lowercase) < length lowercase"
    using draws by (intro random_index_less) (simp_all add: lowercase_def)
  then obtain cl where cl: "cl \<in> set lowercase" "?l = [cl]"
    using char_at_single by blast
  have "random_index (rnd 2) (length numbers) < length numbers"
    using draws by (intro random_index_less) (simp_all add: numbers_def)
  then obtain cd where cd: "cd \<in> set numbers" "?d = [cd]"
    using char_at_single by blast
  have "\<forall>k. 0 \<le> k \<and> k < 9 \<longrightarrow> 0 \<le> rnd (3 + k) \<and> rnd (3 + k) < 1"
    using draws by simp
  then have r: "length ?r = 9"
    using remaining_loop_props[of 0 9 rnd "[]"] by simp
  have len_raw: "length ?raw = 12" using cu cl cd r by simp
  have "mset (shuffle ?raw) = mset ?raw" using perm by blast
  then have same: "length (shuffle ?raw) = length ?raw" "set (shuffle ?raw) = set ?raw"
    by (metis size_mset, metis set_mset_mset)
  have len: "length (generateValidPassword rnd shuffle) = 12"
    using pw same len_raw by simp
  have "cu \<in> set ?raw" "cl \<in> set ?raw" "cd \<in> set ?raw" using cu cl cd by simp_all
  then have mem: "cu \<in> set (generateValidPassword rnd shuffle)"
    "cl \<in> set (generateValidPassword rnd shuffle)"
    "cd \<in> set (generateValidPassword rnd shuffle)"
    using pw same by simp_all
  have up: "\<exists>c\<in>set (generateValidPassword rnd shuffle). is_upper c"
    using mem(1) cu(1) uppercase_chars by blast
  have lo: "\<exists>c\<in>set (generateValidPassword rnd shuffle). is_lower c"
    using mem(2) cl(1) lowercase_chars by blast
  have di: "\<exists>c\<in>set (generateValidPassword rnd shuffle). is_digit c"
    using mem(3) cd(1) numbers_chars by blast
  have "password_errors (generateValidPassword rnd shuffle) = []"
    using len up lo di by (rule password_errors_nil)
  then have "isValid (isValidPassword (generateValidPassword rnd shuffle))
       \<and> errors (isValidPassword (generateValidPassword rnd shuffle)) = []"
    by (simp add: isValidPassword_def Let_def)
  with len up lo di show ?thesis by blast
qed

text \<open>
  The theorem with every draw equal to one half and a sort that reverses the characters:
  the draws pick \<open>N\<close>, \<open>n\<close>, \<open>5\<close> and nine times \<open>f\<close>.
\<close>

theorem generated_password_valid_witness:
  "generateValidPassword (\<lambda>k. 1 / 2) rev = ''fffffffff5nN''
   \<and> length (generateValidPassword (\<lambda>k. 1 / 2) rev) = 12
   \<and> isValid (isValidPassword (generateValidPassword (\<lambda>k. 1 / 2) rev))
   \<and> errors (isValidPassword (generateValidPassword (\<lambda>k. 1 / 2) rev)) = []"
proof -
  have d: "\<forall>k<12. 0 \<le> (\<lambda>k::nat. 1 / 2 :: real) k \<and> (\<lambda>k::nat. 1 / 2 :: real) k < 1"
    by simp
  have p: "\<forall>s :: string. mset (rev s) = mset s" by simp
  have "generateValidPassword (\<lambda>k. 1 / 2) rev = ''fffffffff5nN''"
    by (simp add: generateValidPassword_def remaining_loop.simps random_index_def char_at_def
        allChars_def uppercase_def lowercase_def numbers_def)
  with generated_password_valid [OF d p] show ?thesis by simp
qed

section \<open>Properties of the email validator\<close>

lemma match_lit:
  "anchored_match (Lit c # r) s \<longleftrightarrow> (\<exists>v. s = c # v \<and> anchored_match r v)"
  by (cases s) auto

lemma match_class_plus:
  "anchored_match (ClassPlus cls # r) s \<longleftrightarrow>
     (\<exists>u v. s = u @ v \<and> u \<noteq> [] \<and> (\<forall>c\<in>set u. cls c) \<and> anchored_match r v)"
proof (induction s)
  case Nil
  then show ?case by simp
next
  case (Cons x xs)
  show ?case
  proof
    assume "anchored_match (ClassPlus cls # r) (x # xs)"
    then have x: "cls x" and rest: "anchored_match (ClassPlus cls # r) xs \<or> anchored_match r xs"
      by simp_all
    from rest show "\<exists>u v. x # xs = u @ v \<and> u \<noteq> [] \<and> (\<forall>c\<in>set u. cls c) \<and> anchored_match r v"
    proof
      assume "anchored_match (ClassPlus cls # r) xs"
      then obtain u v where "xs = u @ v" "u \<noteq> []" "\<forall>c\<in>set u. cls c" "anchored_match r v"
        using Cons.IH by blast
      then have "x # xs = (x # u) @ v \<and> x # u \<noteq> [] \<and> (\<forall>c\<in>set (x # u). cls c)
                 \<and> anchored_match r v"
        using x by simp
      then show ?thesis by blast
    next
      assume "anchored_match r xs"
      then have "x # xs = [x] @ xs \<and> [x] \<noteq> [] \<and> (\<forall>c\<in>set [x]. cls c) \<and> anchored_match r xs"
        using x by simp
      then show ?thesis by blast
    qed
  next
    assume "\<exists>u v. x # xs = u @ v \<and> u \<noteq> [] \<and> (\<forall>c\<in>set u. cls c) \<and> anchored_match r v"
    then obtain u v where uv: "x # xs = u @ v" "u \<noteq> []" "\<forall>c\<in>set u. cls c" "anchored_match r v"
      by blast
    then obtain u' where u: "u = x # u'" by (cases u) auto
    with uv have x: "cls x" and xs: "xs = u' @ v" and u': "\<forall>c\<in>set u'. cls c" by simp_all
    show "anchored_match (ClassPlus cls # r) (x # xs)"
    proof (cases "u' = []")
      case True
      with xs uv(4) x show ?thesis by simp
    next
      case False
      with xs u' uv(4) have "anchored_match (ClassPlus cls # r) xs"
        using Cons.IH by blast
      with x show ?thesis by simp
    qed
  qed
qed

lemma match_tail:
  "anchored_match [ClassPlus cls] t \<longleftrightarrow> t \<noteq> [] \<and> (\<forall>c\<in>set t. cls c)"
  by (simp add: match_class_plus [of cls "[]"])

lemma match_dot_tail:
  "anchored_match [Lit (CHR ''.''), ClassPlus cls] s \<longleftrightarrow>
     (\<exists>t. s = CHR ''.'' # t \<and> t \<noteq> [] \<and> (\<forall>c\<in>set t. cls c))"
  by (simp add: match_lit [of _ "[ClassPlus cls]"] match_tail)

lemma match_domain:
  "anchored_match [ClassPlus cls, Lit (CHR ''.''), ClassPlus cls] s \<longleftrightarrow>
     (\<exists>d t. s = d @ CHR ''.'' # t \<and> d \<noteq> [] \<and> t \<noteq> []
        \<and> (\<forall>c\<in>set d. cls c) \<and> (\<forall>c\<in>set t. cls c))"
  unfolding match_class_plus [of cls "[Lit (CHR ''.''), ClassPlus cls]"] match_dot_tail
  by blast

lemma match_at_domain:
  "anchored_match [Lit (CHR ''@''), ClassPlus cls, Lit (CHR ''.''), ClassPlus cls] s \<longleftrightarrow>
     (\<exists>d t. s = CHR ''@'' # d @ CHR ''.'' # t \<and> d \<noteq> [] \<and> t \<noteq> []
        \<and> (\<forall>c\<in>set d. cls c) \<and> (\<forall>c\<in>set t. cls c))"
  unfolding match_lit [of _ "[ClassPlus cls, Lit (CHR ''.''), ClassPlus cls]"] match_domain
  by blast

lemma match_email:
  "anchored_match
     [ClassPlus cls, Lit (CHR ''@''), ClassPlus cls, Lit (CHR ''.''), ClassPlus cls] s \<longleftrightarrow>
     (\<exists>l d t. s = l @ CHR ''@'' # d @ CHR ''.'' # t \<and> l \<noteq> [] \<and> d \<noteq> [] \<and> t \<noteq> []
        \<and> (\<forall>c\<in>set l. cls c) \<and> (\<forall>c\<in>set d. cls c) \<and> (\<forall>c\<in>set t. cls c))"
  unfolding match_class_plus
      [of cls "[Lit (CHR ''@''), ClassPlus cls, Lit (CHR ''.''), ClassPlus cls]"]
    match_at_domain
  by blast

lemma isValidEmail_iff:
  "isValidEmail email \<longleftrightarrow>
     (\<exists>l d t. email = l @ ''@'' @ d @ ''.'' @ t \<and> l \<noteq> [] \<and> d \<noteq> [] \<and> t \<noteq> []
        \<and> (\<forall>c\<in>set (l @ d @ t). \<not> is_space c \<and> c \<noteq> CHR ''@''))"
  unfolding isValidEmail_def emailRegex_def match_email not_space_at_def
  by (simp add: ball_Un)


text \<open>
  C2, as the code has it. The validator rejects \<open>"invalid-email"\<close>, \<open>"invalid@"\<close> and
  \<open>"@invalid.com"\<close>, and accepts \<open>"john.doe@example.com"\<close> and also
  \<open>"invalid..email@example.com"\<close> (the class \<open>[^\s@]\<close> admits a dot, so two dots in a
  row pass). An email is accepted only if it is a non-empty local part, an \<open>@\<close> and a
  domain, with no whitespace anywhere, no \<open>@\<close> inside the local part or the domain, and
  a dot inside the domain that is neither its first nor its last character.
\<close>

theorem email_validator_shape:
  "\<not> isValidEmail ''invalid-email''
   \<and> \<not> isValidEmail ''invalid@''
   \<and> \<not> isValidEmail ''@invalid.com''
   \<and> isValidEmail ''invalid..email@example.com''
   \<and> isValidEmail ''john.doe@example.com''
   \<and> (isValidEmail email \<longrightarrow>
        (\<exists>local_part domain d t.
           email = local_part @ ''@'' @ domain \<and> local_part \<noteq> []
           \<and> (\<forall>c\<in>set email. \<not> is_space c)
           \<and> CHR ''@'' \<notin> set local_part \<and> CHR ''@'' \<notin> set domain
           \<and> domain = d @ ''.'' @ t \<and> d \<noteq> [] \<and> t \<noteq> []))"
proof -
  have ex: "\<not> isValidEmail ''invalid-email''" "\<not> isValidEmail ''invalid@''"
    "\<not> isValidEmail ''@invalid.com''" "isValidEmail ''invalid..email@example.com''"
    "isValidEmail ''john.doe@example.com''"
    by code_simp+
  have shape: "\<exists>local_part domain d t.
           email = local_part @ ''@'' @ domain \<and> local_part \<noteq> []
           \<and> (\<forall>c\<in>set email. \<not> is_space c)
           \<and> CHR ''@'' \<notin> set local_part \<and> CHR ''@'' \<notin> set domain
           \<and> domain = d @ ''.'' @ t \<and> d \<noteq> [] \<and> t \<noteq> []" if "isValidEmail email"
  proof -
    from that have "\<exists>l d t. email = l @ ''@'' @ d @ ''.'' @ t \<and> l \<noteq> [] \<and> d \<noteq> [] \<and> t \<noteq> []
        \<and> (\<forall>c\<in>set (l @ d @ t). \<not> is_space c \<and> c \<noteq> CHR ''@'')"
      by (simp only: isValidEmail_iff)
    then obtain l d t where e: "email = l @ ''@'' @ d @ ''.'' @ t"
      and ne: "l \<noteq> []" "d \<noteq> []" "t \<noteq> []"
      and cls: "\<forall>c\<in>set (l @ d @ t). \<not> is_space c \<and> c \<noteq> CHR ''@''"
      by (elim exE conjE)
    have sp: "\<not> is_space (CHR ''@'')" "\<not> is_space (CHR ''.'')"
      by (simp_all add: is_space_def)
    have a: "\<forall>c\<in>set email. \<not> is_space c" using cls sp unfolding e by simp
    have b: "CHR ''@'' \<notin> set l" "CHR ''@'' \<notin> set (d @ ''.'' @ t)"
      using cls by auto
    show ?thesis
      apply (rule exI [of _ l])
      apply (rule exI [of _ "d @ ''.'' @ t"])
      apply (rule exI [of _ d])
      apply (rule exI [of _ t])
      using e ne a b apply simp
      done
  qed
  show ?thesis
    using ex shape by (intro conjI impI)
qed

text \<open>The theorem at \<open>"john.doe@example.com"\<close>, which is accepted.\<close>

theorem email_validator_shape_witness:
  "isValidEmail ''john.doe@example.com''
   \<and> (\<exists>local_part domain d t.
         ''john.doe@example.com'' = local_part @ ''@'' @ domain \<and> local_part \<noteq> []
         \<and> (\<forall>c\<in>set ''john.doe@example.com''. \<not> is_space c)
         \<and> CHR ''@'' \<notin> set local_part \<and> CHR ''@'' \<notin> set domain
         \<and> domain = d @ ''.'' @ t \<and> d \<noteq> [] \<and> t \<noteq> [])"
proof -
  note t = email_validator_shape [of "''john.doe@example.com''"]
  from t have v: "isValidEmail ''john.doe@example.com''"
    by (elim conjE)
  from t v have "\<exists>local_part domain d t.
         ''john.doe@example.com'' = local_part @ ''@'' @ domain \<and> local_part \<noteq> []
         \<and> (\<forall>c\<in>set ''john.doe@example.com''. \<not> is_space c)
         \<and> CHR ''@'' \<notin> set local_part \<and> CHR ''@'' \<notin> set domain
         \<and> domain = d @ ''.'' @ t \<and> d \<noteq> [] \<and> t \<noteq> []"
    by (elim conjE impE)
  with v show ?thesis by (rule conjI)
qed

text \<open>
  The specification lists \<open>"invalid..email@example.com"\<close> among the emails that the
  validator rejects; the validator accepts it.
\<close>

theorem email_double_dot_counterexample:
  "isValidEmail ''invalid..email@example.com'' = True"
  by code_simp

section \<open>Properties of field resolution\<close>

lemma reduce_members_undefined: "reduce_members rt Undefined ks = Inr Undefined"
  by (induction ks) (simp_all add: opt_member_def nullish_def)

lemma reduce_members_append:
  "reduce_members rt current (ks @ ks') =
     (case reduce_members rt current ks of
        Inl e \<Rightarrow> Inl e
      | Inr v \<Rightarrow> reduce_members rt v ks')"
proof (induction ks arbitrary: current)
  case Nil
  show ?case by simp
next
  case (Cons k ks)
  show ?case by (cases "opt_member rt current k") (simp_all add: Cons.IH)
qed

lemma opt_member_throw:
  assumes "opt_member rt current k = Inl e"
  shows "(\<exists>d. inherited rt d k = Inl e) \<or> (\<exists>obj. native_member rt obj k = Inl e)"
proof (cases current)
  case Undefined
  with assms show ?thesis by (simp add: opt_member_def nullish_def)
next
  case (Data d)
  with assms have "inherited rt d k = Inl e"
    by (auto simp: opt_member_def nullish_def split: if_splits option.splits)
  then show ?thesis by blast
next
  case (Native obj)
  with assms have "native_member rt obj k = Inl e"
    by (simp add: opt_member_def nullish_def)
  then show ?thesis by blast
qed

lemma reduce_members_throw:
  assumes "reduce_members rt current ks = Inl e"
  shows "(\<exists>d k. inherited rt d k = Inl e) \<or> (\<exists>obj k. native_member rt obj k = Inl e)"
  using assms
proof (induction ks arbitrary: current)
  case Nil
  then show ?case by simp
next
  case (Cons k ks)
  show ?case
  proof (cases "opt_member rt current k")
    case (Inl e')
    with Cons.prems have "opt_member rt current k = Inl e" by simp
    from opt_member_throw [OF this] show ?thesis by blast
  next
    case (Inr v)
    with Cons.prems have "reduce_members rt v ks = Inl e" by simp
    then show ?thesis by (rule Cons.IH)
  qed
qed

lemma split_dot_not_Nil: "split_dot s \<noteq> []"
  by (induction s) (auto split: list.split)

lemma split_dot_key: "CHR ''.'' \<notin> set k \<Longrightarrow> split_dot k = [k]"
  by (induction k) auto

lemma split_dot_append:
  "split_dot (p @ CHR ''.'' # q) = split_dot p @ split_dot q"
proof (induction p)
  case Nil
  show ?case by simp
next
  case (Cons c p)
  obtain h t where ht: "split_dot p = h # t"
    using split_dot_not_Nil [of p] by (cases "split_dot p") auto
  show ?case using Cons.IH by (simp add: ht)
qed

lemma split_dot_join: "join ''.'' (split_dot s) = s"
proof (induction s)
  case Nil
  show ?case by simp
next
  case (Cons c s)
  obtain h t where ht: "split_dot s = h # t"
    using split_dot_not_Nil [of s] by (cases "split_dot s") auto
  show ?case using Cons.IH by (cases t) (simp_all add: ht)
qed

lemma split_dot_pieces: "piece \<in> set (split_dot s) \<Longrightarrow> CHR ''.'' \<notin> set piece"
proof (induction s arbitrary: piece)
  case Nil
  then show ?case by simp
next
  case (Cons c s)
  obtain h t where ht: "split_dot s = h # t"
    using split_dot_not_Nil [of s] by (cases "split_dot s") auto
  from Cons.prems Cons.IH show ?case
    by (auto simp: ht split: if_splits)
qed

lemma getNestedValue_step:
  "getNestedValue rt v (p @ ''.'' @ q) =
     (case getNestedValue rt v p of Inl e \<Rightarrow> Inl e | Inr w \<Rightarrow> getNestedValue rt w q)"
  by (simp add: getNestedValue_def split_dot_append reduce_members_append split: sum.split)

lemma getNestedValue_nullish:
  assumes "nullish v"
  shows "getNestedValue rt v q = Inr Undefined"
proof -
  obtain k ks where "split_dot q = k # ks"
    using split_dot_not_Nil [of q] by (cases "split_dot q") auto
  then show ?thesis
    using assms by (simp add: getNestedValue_def opt_member_def reduce_members_undefined)
qed

lemma getNestedValue_key:
  "CHR ''.'' \<notin> set k \<Longrightarrow> getNestedValue rt v k = opt_member rt v k"
  by (simp add: getNestedValue_def split_dot_key split: sum.split)

lemma getNestedValue_data_key:
  assumes "CHR ''.'' \<notin> set k" and "d \<noteq> JNull"
  shows "getNestedValue rt (Data d) k =
     (case own_member d k of Some w \<Rightarrow> Inr (Data w) | None \<Rightarrow> inherited rt d k)"
  using assms by (simp add: getNestedValue_key opt_member_def nullish_def)

lemma getNestedValue_throw:
  assumes "getNestedValue rt v path = Inl e"
  shows "(\<exists>d k. inherited rt d k = Inl e) \<or> (\<exists>obj k. native_member rt obj k = Inl e)"
  using assms unfolding getNestedValue_def by (rule reduce_members_throw)

lemma starts_with_iff: "starts_with s p \<longleftrightarrow> (\<exists>rest. s = p @ rest)"
  by (induction s p rule: starts_with.induct) auto

lemma str_includes_iff: "str_includes s sub \<longleftrightarrow> (\<exists>pre post. s = pre @ sub @ post)"
proof (induction s)
  case Nil
  show ?case by simp
next
  case (Cons c cs)
  show ?case
  proof
    assume "str_includes (c # cs) sub"
    then consider "starts_with (c # cs) sub" | "str_includes cs sub" by auto
    then show "\<exists>pre post. c # cs = pre @ sub @ post"
    proof cases
      case 1
      then obtain rest where "c # cs = [] @ sub @ rest" by (auto simp: starts_with_iff)
      then show ?thesis by blast
    next
      case 2
      then obtain pre post where "cs = pre @ sub @ post" using Cons.IH by blast
      then have "c # cs = (c # pre) @ sub @ post" by simp
      then show ?thesis by blast
    qed
  next
    assume "\<exists>pre post. c # cs = pre @ sub @ post"
    then obtain pre post where e: "c # cs = pre @ sub @ post" by blast
    show "str_includes (c # cs) sub"
    proof (cases pre)
      case Nil
      with e have "starts_with (c # cs) sub" by (auto simp: starts_with_iff)
      then show ?thesis by simp
    next
      case (Cons a pre')
      with e have "cs = pre' @ sub @ post" by simp
      then have "str_includes cs sub" using Cons.IH by blast
      then show ?thesis by simp
    qed
  qed
qed

lemma str_includes_refl: "str_includes s s"
  by (simp add: str_includes_iff) (metis append_Nil append_Nil2)

lemma str_includes_appendL: "str_includes s sub \<Longrightarrow> str_includes (p @ s) sub"
  by (simp add: str_includes_iff) (metis append.assoc)

lemma str_includes_appendR: "str_includes s sub \<Longrightarrow> str_includes (s @ p) sub"
  by (simp add: str_includes_iff) (metis append.assoc)

section \<open>Properties of the response verifier\<close>

lemma verify_defined_mode:
  assumes "getNestedValue rt body path = Inr fv"
    and "json_text rt ''  '' body = Inr full"
  shows "verifyResponseBodyValue rt body path ev (Some Defined) =
     Inr \<lparr> isValid = (fv \<noteq> Undefined \<and> fv \<noteq> Data JNull),
           errorMessage =
             (if fv \<noteq> Undefined \<and> fv \<noteq> Data JNull then ''''
              else path @ '' is missing or undefined. Full response: '' @ full) \<rparr>"
  using assms by (simp add: verifyResponseBodyValue_def)

lemma verify_missing_field:
  assumes "getNestedValue rt body path = Inr fv"
    and "json_text rt ''  '' body = Inr full"
    and "fv = Undefined \<or> fv = Data JNull" and "mode \<noteq> Some Defined"
  shows "verifyResponseBodyValue rt body path ev mode =
     (case json_text rt [] ev of
        Inl e \<Rightarrow> Inl e
      | Inr expectedJson \<Rightarrow>
          Inr \<lparr> isValid = False,
                errorMessage =
                  path @ '' is missing. Expected: '' @ expectedJson
                  @ '', but field is undefined. Full response: '' @ full \<rparr>)"
proof -
  from assms(4) have "(case mode of None \<Rightarrow> Contains | Some c \<Rightarrow> c) \<noteq> Defined"
    by (cases mode) auto
  with assms(1,2,3) show ?thesis
    by (auto simp: verifyResponseBodyValue_def Let_def split: sum.split)
qed

lemma verify_equals_mode:
  assumes "getNestedValue rt body path = Inr fv"
    and "json_text rt ''  '' body = Inr full"
    and "fv \<noteq> Undefined \<and> fv \<noteq> Data JNull"
  shows "verifyResponseBodyValue rt body path ev (Some Equals) =
     (if strict_eq fv ev then Inr \<lparr> isValid = True, errorMessage = '''' \<rparr>
      else case to_string rt ev of
             Inl e \<Rightarrow> Inl e
           | Inr expectedText \<Rightarrow>
               (case to_string rt fv of
                  Inl e \<Rightarrow> Inl e
                | Inr fieldText \<Rightarrow>
                    Inr \<lparr> isValid = False,
                          errorMessage =
                            ''Expected '' @ path @ '' to equal '' @ [CHR 0x22]
                            @ expectedText @ [CHR 0x22] @ '', but got '' @ [CHR 0x22]
                            @ fieldText @ [CHR 0x22] @ ''. Full response: '' @ full \<rparr>))"
  using assms
  by (simp add: verifyResponseBodyValue_def Let_def split: sum.split)

lemma verify_contains_mode:
  assumes "getNestedValue rt body path = Inr fv"
    and "json_text rt ''  '' body = Inr full"
    and "fv \<noteq> Undefined \<and> fv \<noteq> Data JNull"
  shows "verifyResponseBodyValue rt body path ev (Some Contains) =
     (case to_string rt fv of
        Inl e \<Rightarrow> Inl e
      | Inr fieldStr \<Rightarrow>
          (case to_string rt ev of
             Inl e \<Rightarrow> Inl e
           | Inr expectedStr \<Rightarrow>
               Inr \<lparr> isValid = str_includes fieldStr expectedStr,
                     errorMessage =
                       (if str_includes fieldStr expectedStr then ''''
                        else ''Expected '' @ path @ '' to contain '' @ [CHR 0x22]
                             @ expectedStr @ [CHR 0x22] @ '', but got '' @ [CHR 0x22]
                             @ fieldStr @ [CHR 0x22] @ ''. Full response: '' @ full) \<rparr>))"
  using assms
  by (simp add: verifyResponseBodyValue_def Let_def split: sum.split)

lemma verify_throw_early:
  assumes "verifyResponseBodyValue rt body path ev (Some Defined) = Inl e"
  shows "getNestedValue rt body path = Inl e \<or> json_text rt ''  '' body = Inl e"
  using assms
  by (auto simp: verifyResponseBodyValue_def Let_def split: sum.splits if_splits)

lemma json_text_data: "json_text rt gap (Data d) = Inr (stringify rt gap [] d)"
  by (simp add: json_text_def)

lemma error_payload_text:
  "stringify rt ''  '' [] error_payload =
     ''{'' @ [CHR 0x0A] @ ''  '' @ [CHR 0x22] @ ''error'' @ [CHR 0x22] @ '': ''
     @ [CHR 0x22] @ ''invalid password'' @ [CHR 0x22] @ [CHR 0x0A] @ ''}''"
  by (simp add: error_payload_def json_wrap_def json_quote_def json_escape_def)

text \<open>
  C10. When the caller omits the comparison mode, the verifier returns what it returns
  for the mode \<open>contains\<close>: the same validity and the same message, or the same throw.
\<close>

theorem verify_default_is_contains:
  "verifyResponseBodyValue rt responseBody fieldPath expectedValue None
     = verifyResponseBodyValue rt responseBody fieldPath expectedValue (Some Contains)"
  by (simp add: verifyResponseBodyValue_def)

text \<open>
  The theorem at the payload \<open>{error: "invalid password"}\<close>, field \<open>error\<close>, expected
  \<open>"invalid password"\<close>: with the mode omitted the check succeeds, as it does for
  \<open>contains\<close>.
\<close>

theorem verify_default_is_contains_witness:
  "verifyResponseBodyValue sample_engine (Data error_payload) ''error''
     (Data (JStr ''invalid password'')) None
     = Inr \<lparr> isValid = True, errorMessage = '''' \<rparr>"
proof -
  have "verifyResponseBodyValue sample_engine (Data error_payload) ''error''
          (Data (JStr ''invalid password'')) (Some Contains)
        = Inr \<lparr> isValid = True, errorMessage = '''' \<rparr>"
    by code_simp
  then show ?thesis
    by (simp only: verify_default_is_contains)
qed

lemma digit_char_values:
  "digit_char 0 = CHR ''0''" "digit_char 1 = CHR ''1''" "digit_char 2 = CHR ''2''"
  "digit_char 3 = CHR ''3''" "digit_char 4 = CHR ''4''" "digit_char 5 = CHR ''5''"
  "digit_char 6 = CHR ''6''" "digit_char 7 = CHR ''7''" "digit_char 8 = CHR ''8''"
  "digit_char 9 = CHR ''9''" "digit_char (Suc 0) = CHR ''1''"
  by code_simp+

lemma floor_half: "\<lfloor>1 / 2 :: rat\<rfloor> = 0"
  by (rule floor_unique) simp_all

text \<open>
  The text of numbers: a safe integer is written with all its digits; \<open>10^21\<close>, which
  JavaScript writes \<open>1e+21\<close>, and a fraction are left to the engine.
\<close>

lemma number_text_examples:
  "number_text rt (Finite 3600) = ''3600''"
  "number_text rt (Finite (- 12)) = ''-12''"
  "number_text rt (Finite (10 ^ 21)) = other_number_text rt (10 ^ 21)"
  "number_text rt (Finite (1 / 2)) = other_number_text rt (1 / 2)"
  by (simp_all add: number_text_def safe_integer_def show_int_def show_nat.simps
      digit_char_values floor_half)

text \<open>
  C6. In the mode \<open>defined\<close> the expected value has no influence on what the verifier
  does. Whenever the field path resolves to a value (and the payload has a JSON text, as
  every decoded payload has), the verifier returns a result: it is valid exactly when the
  resolved value is neither \<open>undefined\<close> nor \<open>null\<close>; on success the message is empty;
  on failure the message is the field path, the words "is missing or undefined. Full
  response:" and the JSON text of the whole payload, so it mentions the path and holds
  the dump of the payload. The verifier throws in this mode only when resolution or the
  dump throws.
\<close>

theorem verify_defined:
  "verifyResponseBodyValue rt body path otherExpected (Some Defined) =
     verifyResponseBodyValue rt body path expectedValue (Some Defined)
   \<and> (getNestedValue rt body path = Inr fieldValue \<and> json_text rt ''  '' body = Inr full \<longrightarrow>
        verifyResponseBodyValue rt body path expectedValue (Some Defined) =
          Inr \<lparr> isValid = (fieldValue \<noteq> Undefined \<and> fieldValue \<noteq> Data JNull),
                errorMessage =
                  (if fieldValue \<noteq> Undefined \<and> fieldValue \<noteq> Data JNull then ''''
                   else path @ '' is missing or undefined. Full response: '' @ full) \<rparr>
        \<and> (fieldValue = Undefined \<or> fieldValue = Data JNull \<longrightarrow>
             (\<exists>msg. verifyResponseBodyValue rt body path expectedValue (Some Defined)
                      = Inr \<lparr> isValid = False, errorMessage = msg \<rparr>
                    \<and> str_includes msg path \<and> str_includes msg full)))
   \<and> json_text rt ''  '' (Data payload) = Inr (stringify rt ''  '' [] payload)
   \<and> (verifyResponseBodyValue rt body path expectedValue (Some Defined) = Inl e \<longrightarrow>
        getNestedValue rt body path = Inl e \<or> json_text rt ''  '' body = Inl e)"
proof -
  have same: "verifyResponseBodyValue rt body path otherExpected (Some Defined) =
     verifyResponseBodyValue rt body path expectedValue (Some Defined)"
    by (simp add: verifyResponseBodyValue_def split: sum.split)
  have res: "verifyResponseBodyValue rt body path expectedValue (Some Defined) =
          Inr \<lparr> isValid = (fieldValue \<noteq> Undefined \<and> fieldValue \<noteq> Data JNull),
                errorMessage =
                  (if fieldValue \<noteq> Undefined \<and> fieldValue \<noteq> Data JNull then ''''
                   else path @ '' is missing or undefined. Full response: '' @ full) \<rparr>
        \<and> (fieldValue = Undefined \<or> fieldValue = Data JNull \<longrightarrow>
             (\<exists>msg. verifyResponseBodyValue rt body path expectedValue (Some Defined)
                      = Inr \<lparr> isValid = False, errorMessage = msg \<rparr>
                    \<and> str_includes msg path \<and> str_includes msg full))"
    if h: "getNestedValue rt body path = Inr fieldValue \<and> json_text rt ''  '' body = Inr full"
  proof -
    let ?msg = "path @ ('' is missing or undefined. Full response: '' @ full)"
    from h have r: "verifyResponseBodyValue rt body path expectedValue (Some Defined) =
          Inr \<lparr> isValid = (fieldValue \<noteq> Undefined \<and> fieldValue \<noteq> Data JNull),
                errorMessage =
                  (if fieldValue \<noteq> Undefined \<and> fieldValue \<noteq> Data JNull then '''' else ?msg) \<rparr>"
      using verify_defined_mode [of rt body path fieldValue full expectedValue] by simp
    have i1: "str_includes ?msg path"
      by (intro str_includes_appendR str_includes_refl)
    have i2: "str_includes ?msg full"
      by (intro str_includes_appendL str_includes_refl)
    have miss: "\<exists>msg. verifyResponseBodyValue rt body path expectedValue (Some Defined)
                      = Inr \<lparr> isValid = False, errorMessage = msg \<rparr>
                    \<and> str_includes msg path \<and> str_includes msg full"
      if "fieldValue = Undefined \<or> fieldValue = Data JNull"
    proof -
      from that have "verifyResponseBodyValue rt body path expectedValue (Some Defined)
                      = Inr \<lparr> isValid = False, errorMessage = ?msg \<rparr>"
        unfolding r by auto
      with i1 i2 show ?thesis by (intro exI [of _ ?msg] conjI)
    qed
    show ?thesis
      apply (rule conjI)
       apply (rule r)
      apply (rule impI)
      apply (erule miss)
      done
  qed
  have dump: "json_text rt ''  '' (Data payload) = Inr (stringify rt ''  '' [] payload)"
    by (rule json_text_data)
  have throw: "getNestedValue rt body path = Inl e \<or> json_text rt ''  '' body = Inl e"
    if "verifyResponseBodyValue rt body path expectedValue (Some Defined) = Inl e"
    using that by (rule verify_throw_early)
  show ?thesis
    apply (rule conjI)
     apply (rule same)
    apply (rule conjI)
     apply (rule impI)
     apply (erule res)
    apply (rule conjI)
     apply (rule dump)
    apply (rule impI)
    apply (erule throw)
    done
qed

text \<open>
  The theorem at the two examples of the specification, on the sample engine:
  \<open>oauth.access_token\<close> is defined in \<open>{oauth: {access_token: "x"}}\<close>, and \<open>token\<close> is
  missing from \<open>{error: "invalid password"}\<close>, whose JSON text ends the message.
\<close>

theorem verify_defined_witness:
  "verifyResponseBodyValue sample_engine (Data oauth_payload) ''oauth.access_token''
     (Data JNull) (Some Defined)
     = Inr \<lparr> isValid = True, errorMessage = '''' \<rparr>
   \<and> verifyResponseBodyValue sample_engine (Data error_payload) ''token''
       (Data JNull) (Some Defined)
     = Inr \<lparr> isValid = False,
             errorMessage = ''token is missing or undefined. Full response: ''
               @ ''{'' @ [CHR 0x0A] @ ''  '' @ [CHR 0x22] @ ''error'' @ [CHR 0x22] @ '': ''
               @ [CHR 0x22] @ ''invalid password'' @ [CHR 0x22] @ [CHR 0x0A] @ ''}'' \<rparr>"
proof -
  note t1 = verify_defined
    [where rt = sample_engine and body = "Data oauth_payload"
       and path = "''oauth.access_token''" and expectedValue = "Data JNull"
       and fieldValue = "Data (JStr ''x'')"
       and full = "stringify sample_engine ''  '' [] oauth_payload"]
  have a: "getNestedValue sample_engine (Data oauth_payload) ''oauth.access_token''
             = Inr (Data (JStr ''x''))
           \<and> json_text sample_engine ''  '' (Data oauth_payload)
             = Inr (stringify sample_engine ''  '' [] oauth_payload)"
    by (rule conjI, code_simp, rule json_text_data)
  from t1 [THEN conjunct2, THEN conjunct1, THEN mp, OF a, THEN conjunct1]
  have 1: "verifyResponseBodyValue sample_engine (Data oauth_payload) ''oauth.access_token''
     (Data JNull) (Some Defined)
     = Inr \<lparr> isValid = True, errorMessage = '''' \<rparr>"
    by simp
  note t2 = verify_defined
    [where rt = sample_engine and body = "Data error_payload"
       and path = "''token''" and expectedValue = "Data JNull"
       and fieldValue = Undefined
       and full = "stringify sample_engine ''  '' [] error_payload"]
  have b: "getNestedValue sample_engine (Data error_payload) ''token'' = Inr Undefined
           \<and> json_text sample_engine ''  '' (Data error_payload)
             = Inr (stringify sample_engine ''  '' [] error_payload)"
    by (rule conjI, code_simp, rule json_text_data)
  from t2 [THEN conjunct2, THEN conjunct1, THEN mp, OF b, THEN conjunct1]
  have 2: "verifyResponseBodyValue sample_engine (Data error_payload) ''token''
       (Data JNull) (Some Defined)
     = Inr \<lparr> isValid = False,
             errorMessage = ''token is missing or undefined. Full response: ''
               @ ''{'' @ [CHR 0x0A] @ ''  '' @ [CHR 0x22] @ ''error'' @ [CHR 0x22] @ '': ''
               @ [CHR 0x22] @ ''invalid password'' @ [CHR 0x22] @ [CHR 0x0A] @ ''}'' \<rparr>"
    by (simp add: error_payload_text)
  from 1 2 show ?thesis by (rule conjI)
qed

text \<open>
  A key that the payload does not have but its prototype chain supplies is defined: on
  the sample engine, \<open>constructor\<close> resolves on \<open>{error: "invalid password"}\<close> to the
  function \<open>Object\<close>, and the check succeeds.
\<close>

lemma verify_defined_inherited:
  "getNestedValue sample_engine (Data error_payload) ''constructor'' = Inr (Native 0)
   \<and> verifyResponseBodyValue sample_engine (Data error_payload) ''constructor''
       (Data JNull) (Some Defined)
     = Inr \<lparr> isValid = True, errorMessage = '''' \<rparr>"
  by code_simp

text \<open>
  C5. Let the field path resolve to a value (and the payload have a JSON text, as every
  decoded payload has). If the resolved value is \<open>undefined\<close> or \<open>null\<close>, the modes
  \<open>equals\<close> and \<open>contains\<close> both fail, with the message that the field is missing
  followed by the JSON text of the expected value and of the payload (every expected
  value that is \<open>undefined\<close> or decoded JSON has a JSON text). Otherwise the mode
  \<open>equals\<close> succeeds exactly when the resolved value is strictly equal to the expected
  value, and the mode \<open>contains\<close> succeeds exactly when both values have a textual form
  and the text of the expected value is a substring of the text of the resolved value;
  whenever either mode returns a result, its validity is that condition.
\<close>

theorem verify_equals_contains:
  assumes "getNestedValue rt body path = Inr fieldValue"
    and "json_text rt ''  '' body = Inr full"
  shows
    "(fieldValue = Undefined \<or> fieldValue = Data JNull \<longrightarrow>
        (\<forall>mode \<in> {Equals, Contains}.
           verifyResponseBodyValue rt body path expectedValue (Some mode) =
             (case json_text rt [] expectedValue of
                Inl e \<Rightarrow> Inl e
              | Inr expectedJson \<Rightarrow>
                  Inr \<lparr> isValid = False,
                        errorMessage =
                          path @ '' is missing. Expected: '' @ expectedJson
                          @ '', but field is undefined. Full response: '' @ full \<rparr>)))
     \<and> json_text rt [] Undefined = Inr ''undefined''
     \<and> json_text rt [] (Data expected) = Inr (stringify rt [] [] expected)
     \<and> (fieldValue \<noteq> Undefined \<and> fieldValue \<noteq> Data JNull \<longrightarrow>
          (verifyResponseBodyValue rt body path expectedValue (Some Equals)
             = Inr \<lparr> isValid = True, errorMessage = '''' \<rparr>
           \<longleftrightarrow> strict_eq fieldValue expectedValue)
        \<and> (\<forall>res. verifyResponseBodyValue rt body path expectedValue (Some Equals) = Inr res
                 \<longrightarrow> isValid res = strict_eq fieldValue expectedValue)
        \<and> (verifyResponseBodyValue rt body path expectedValue (Some Contains)
             = Inr \<lparr> isValid = True, errorMessage = '''' \<rparr>
           \<longleftrightarrow> (\<exists>fieldText expectedText before after.
                  to_string rt fieldValue = Inr fieldText
                  \<and> to_string rt expectedValue = Inr expectedText
                  \<and> fieldText = before @ expectedText @ after))
        \<and> (\<forall>res. verifyResponseBodyValue rt body path expectedValue (Some Contains) = Inr res
                 \<longrightarrow> (isValid res \<longleftrightarrow>
                       (\<exists>fieldText expectedText before after.
                          to_string rt fieldValue = Inr fieldText
                          \<and> to_string rt expectedValue = Inr expectedText
                          \<and> fieldText = before @ expectedText @ after))))"
proof -
  let ?eq = "verifyResponseBodyValue rt body path expectedValue (Some Equals)"
  let ?co = "verifyResponseBodyValue rt body path expectedValue (Some Contains)"
  let ?sub = "\<exists>fieldText expectedText before after.
                  to_string rt fieldValue = Inr fieldText
                  \<and> to_string rt expectedValue = Inr expectedText
                  \<and> fieldText = before @ expectedText @ after"
  have missing: "\<forall>mode \<in> {Equals, Contains}.
           verifyResponseBodyValue rt body path expectedValue (Some mode) =
             (case json_text rt [] expectedValue of
                Inl e \<Rightarrow> Inl e
              | Inr expectedJson \<Rightarrow>
                  Inr \<lparr> isValid = False,
                        errorMessage =
                          path @ '' is missing. Expected: '' @ expectedJson
                          @ '', but field is undefined. Full response: '' @ full \<rparr>)"
    if n: "fieldValue = Undefined \<or> fieldValue = Data JNull"
  proof -
    have "Some Equals \<noteq> Some Defined" "Some Contains \<noteq> Some Defined" by simp_all
    then show ?thesis
      using verify_missing_field [OF assms n] by simp
  qed
  have texts: "json_text rt [] Undefined = Inr ''undefined''"
    "json_text rt [] (Data expected) = Inr (stringify rt [] [] expected)"
    by (simp_all add: json_text_def)
  have present: "(?eq = Inr \<lparr> isValid = True, errorMessage = '''' \<rparr>
                    \<longleftrightarrow> strict_eq fieldValue expectedValue)
        \<and> (\<forall>res. ?eq = Inr res \<longrightarrow> isValid res = strict_eq fieldValue expectedValue)
        \<and> (?co = Inr \<lparr> isValid = True, errorMessage = '''' \<rparr> \<longleftrightarrow> ?sub)
        \<and> (\<forall>res. ?co = Inr res \<longrightarrow> (isValid res \<longleftrightarrow> ?sub))"
    if n: "fieldValue \<noteq> Undefined \<and> fieldValue \<noteq> Data JNull"
  proof -
    note e = verify_equals_mode [OF assms n, of expectedValue]
    note c = verify_contains_mode [OF assms n, of expectedValue]
    have e1: "?eq = Inr \<lparr> isValid = True, errorMessage = '''' \<rparr>
                \<longleftrightarrow> strict_eq fieldValue expectedValue"
      unfolding e by (simp split: sum.split)
    have e2: "\<forall>res. ?eq = Inr res \<longrightarrow> isValid res = strict_eq fieldValue expectedValue"
      unfolding e by (auto split: sum.splits)
    have c1: "?co = Inr \<lparr> isValid = True, errorMessage = '''' \<rparr> \<longleftrightarrow> ?sub"
      unfolding c by (auto simp: str_includes_iff split: sum.splits)
    have c2: "\<forall>res. ?co = Inr res \<longrightarrow> (isValid res \<longleftrightarrow> ?sub)"
      unfolding c by (auto simp: str_includes_iff split: sum.splits)
    from e1 e2 c1 c2 show ?thesis by (intro conjI)
  qed
  show ?thesis
    apply (rule conjI)
     apply (rule impI)
     apply (erule missing)
    apply (rule conjI)
     apply (rule texts(1))
    apply (rule conjI)
     apply (rule texts(2))
    apply (rule impI)
    apply (erule present)
    done
qed

text \<open>
  The theorem at the example of the specification, on the sample engine: the payload
  \<open>{error: "invalid password"}\<close>, field \<open>error\<close>, expected \<open>"invalid password"\<close>, mode
  \<open>contains\<close> gives \<open>(true, "")\<close>; and at the missing field \<open>token\<close> of the same payload,
  where the mode \<open>equals\<close> fails with the expected value \<open>"x"\<close> in the message.
\<close>

theorem verify_equals_contains_witness:
  "verifyResponseBodyValue sample_engine (Data error_payload) ''error''
     (Data (JStr ''invalid password'')) (Some Contains)
     = Inr \<lparr> isValid = True, errorMessage = '''' \<rparr>
   \<and> verifyResponseBodyValue sample_engine (Data error_payload) ''token''
       (Data (JStr ''x'')) (Some Equals)
     = Inr \<lparr> isValid = False,
             errorMessage =
               ''token is missing. Expected: '' @ [CHR 0x22] @ ''x'' @ [CHR 0x22]
               @ '', but field is undefined. Full response: ''
               @ stringify sample_engine ''  '' [] error_payload \<rparr>"
proof -
  let ?p = "''invalid password''"
  let ?full = "stringify sample_engine ''  '' [] error_payload"
  have full: "json_text sample_engine ''  '' (Data error_payload) = Inr ?full"
    by (rule json_text_data)
  have a: "getNestedValue sample_engine (Data error_payload) ''error'' = Inr (Data (JStr ?p))"
    by code_simp
  note t1 = verify_equals_contains [OF a full, of "Data (JStr ?p)"]
  have nn: "Data (JStr ?p) \<noteq> Undefined \<and> Data (JStr ?p) \<noteq> Data JNull" by simp
  note present = t1 [THEN conjunct2, THEN conjunct2, THEN conjunct2, THEN mp, OF nn]
  note iff = present [THEN conjunct2, THEN conjunct2, THEN conjunct1]
  have "to_string sample_engine (Data (JStr ?p)) = Inr ?p
        \<and> to_string sample_engine (Data (JStr ?p)) = Inr ?p \<and> ?p = [] @ ?p @ []"
    by (simp add: to_string_def)
  then have sub: "\<exists>fieldText expectedText before after.
                  to_string sample_engine (Data (JStr ?p)) = Inr fieldText
                  \<and> to_string sample_engine (Data (JStr ?p)) = Inr expectedText
                  \<and> fieldText = before @ expectedText @ after"
    by (intro exI)
  from iff sub
  have 1: "verifyResponseBodyValue sample_engine (Data error_payload) ''error''
     (Data (JStr ?p)) (Some Contains) = Inr \<lparr> isValid = True, errorMessage = '''' \<rparr>"
    by (rule iffD2)
  have c: "getNestedValue sample_engine (Data error_payload) ''token'' = Inr Undefined"
    by code_simp
  note t2 = verify_equals_contains [OF c full, of "Data (JStr ''x'')" "JStr ''x''"]
  have mi: "Undefined = Undefined \<or> Undefined = Data JNull" by simp
  have "Equals \<in> {Equals, Contains}" by simp
  with t2 [THEN conjunct1, THEN mp, OF mi]
  have m: "verifyResponseBodyValue sample_engine (Data error_payload) ''token''
       (Data (JStr ''x'')) (Some Equals) =
             (case json_text sample_engine [] (Data (JStr ''x'')) of
                Inl e \<Rightarrow> Inl e
              | Inr expectedJson \<Rightarrow>
                  Inr \<lparr> isValid = False,
                        errorMessage =
                          ''token'' @ '' is missing. Expected: '' @ expectedJson
                          @ '', but field is undefined. Full response: '' @ ?full \<rparr>)"
    by (rule bspec)
  note ej = t2 [THEN conjunct2, THEN conjunct2, THEN conjunct1]
  have 2: "verifyResponseBodyValue sample_engine (Data error_payload) ''token''
       (Data (JStr ''x'')) (Some Equals)
     = Inr \<lparr> isValid = False,
             errorMessage =
               ''token is missing. Expected: '' @ [CHR 0x22] @ ''x'' @ [CHR 0x22]
               @ '', but field is undefined. Full response: '' @ ?full \<rparr>"
    unfolding m ej by (simp add: json_quote_def json_escape_def)
  from 1 2 show ?thesis by (rule conjI)
qed

text \<open>
  C7, as the code has it. A path is resolved key by key, and the traversal itself never
  throws. A value that is \<open>undefined\<close> or \<open>null\<close> resolves every further path to
  \<open>undefined\<close>. Any other value resolves a key to its own member when it has one: an
  object its keys, a string or an array \<open>length\<close> (and its indices). Otherwise it
  resolves the key to the member that its prototype chain supplies (\<open>constructor\<close>, for
  one), so a number or a boolean answers what its prototype has, and a key is
  \<open>undefined\<close> only where the chain has no member of that name either. Resolution
  throws only the throw of a member read of the engine (an accessor reached on a
  prototype or on an engine object). In the mode \<open>defined\<close> the verifier returns a result
  exactly when resolution returns a value and the payload has a JSON text.
\<close>

theorem resolution_key_by_key:
  "getNestedValue rt v (p @ ''.'' @ q) =
       (case getNestedValue rt v p of Inl e \<Rightarrow> Inl e | Inr w \<Rightarrow> getNestedValue rt w q)
   \<and> getNestedValue rt Undefined q = Inr Undefined
   \<and> getNestedValue rt (Data JNull) q = Inr Undefined
   \<and> (CHR ''.'' \<notin> set k \<and> d \<noteq> JNull \<longrightarrow>
        getNestedValue rt (Data d) k =
          (case own_member d k of Some w \<Rightarrow> Inr (Data w) | None \<Rightarrow> inherited rt d k))
   \<and> (CHR ''.'' \<notin> set k \<and> map_of fs k = None \<and> inherited rt (JObj a fs) k = Inr Undefined \<longrightarrow>
        getNestedValue rt (Data (JObj a fs)) k = Inr Undefined
        \<and> getNestedValue rt (Data (JObj a fs)) (k @ ''.'' @ q) = Inr Undefined)
   \<and> (CHR ''.'' \<notin> set k \<and> map_of fs k = Some w \<longrightarrow>
        getNestedValue rt (Data (JObj a fs)) k = Inr (Data w))
   \<and> getNestedValue rt (Data (JStr s)) ''length'' = Inr (Data (JNum (Finite (of_nat (length s)))))
   \<and> getNestedValue rt (Data (JArr a xs)) ''length''
       = Inr (Data (JNum (Finite (of_nat (length xs)))))
   \<and> (CHR ''.'' \<notin> set k \<longrightarrow>
        getNestedValue rt (Data (JNum n)) k = inherited rt (JNum n) k
        \<and> getNestedValue rt (Data (JBool b)) k = inherited rt (JBool b) k)
   \<and> (getNestedValue rt v path = Inl err \<longrightarrow>
        (\<exists>d' k'. inherited rt d' k' = Inl err) \<or> (\<exists>obj k'. native_member rt obj k' = Inl err))
   \<and> ((\<exists>res. verifyResponseBodyValue rt v path expectedValue (Some Defined) = Inr res) \<longleftrightarrow>
        (\<exists>w. getNestedValue rt v path = Inr w) \<and> (\<exists>full. json_text rt ''  '' v = Inr full))"
proof -
  have step: "getNestedValue rt v (p @ ''.'' @ q) =
       (case getNestedValue rt v p of Inl e \<Rightarrow> Inl e | Inr w \<Rightarrow> getNestedValue rt w q)"
    by (rule getNestedValue_step)
  have dead: "getNestedValue rt Undefined q = Inr Undefined"
    "getNestedValue rt (Data JNull) q = Inr Undefined"
    by (rule getNestedValue_nullish, simp add: nullish_def)+
  have member: "getNestedValue rt (Data d) k =
          (case own_member d k of Some w \<Rightarrow> Inr (Data w) | None \<Rightarrow> inherited rt d k)"
    if "CHR ''.'' \<notin> set k \<and> d \<noteq> JNull"
    using that by (simp add: getNestedValue_data_key)
  have absent: "getNestedValue rt (Data (JObj a fs)) k = Inr Undefined
        \<and> getNestedValue rt (Data (JObj a fs)) (k @ ''.'' @ q) = Inr Undefined"
    if "CHR ''.'' \<notin> set k \<and> map_of fs k = None \<and> inherited rt (JObj a fs) k = Inr Undefined"
  proof -
    from that have 1: "getNestedValue rt (Data (JObj a fs)) k = Inr Undefined"
      by (simp add: getNestedValue_data_key)
    have "getNestedValue rt (Data (JObj a fs)) (k @ ''.'' @ q) = Inr Undefined"
      unfolding getNestedValue_step [of rt "Data (JObj a fs)" k q] 1 using dead(1) by simp
    with 1 show ?thesis by (rule conjI)
  qed
  have own: "getNestedValue rt (Data (JObj a fs)) k = Inr (Data w)"
    if "CHR ''.'' \<notin> set k \<and> map_of fs k = Some w"
    using that by (simp add: getNestedValue_data_key)
  have len: "getNestedValue rt (Data (JStr s)) ''length''
               = Inr (Data (JNum (Finite (of_nat (length s)))))"
    "getNestedValue rt (Data (JArr a xs)) ''length''
       = Inr (Data (JNum (Finite (of_nat (length xs)))))"
    by (simp_all add: getNestedValue_def opt_member_def nullish_def)
  have prim: "getNestedValue rt (Data (JNum n)) k = inherited rt (JNum n) k
        \<and> getNestedValue rt (Data (JBool b)) k = inherited rt (JBool b) k"
    if "CHR ''.'' \<notin> set k"
    using that by (simp add: getNestedValue_data_key)
  have throw: "(\<exists>d' k'. inherited rt d' k' = Inl err)
         \<or> (\<exists>obj k'. native_member rt obj k' = Inl err)"
    if "getNestedValue rt v path = Inl err"
    using that by (rule getNestedValue_throw)
  have defined: "(\<exists>res. verifyResponseBodyValue rt v path expectedValue (Some Defined) = Inr res)
      \<longleftrightarrow> (\<exists>w. getNestedValue rt v path = Inr w) \<and> (\<exists>full. json_text rt ''  '' v = Inr full)"
    by (auto simp: verifyResponseBodyValue_def Let_def split: sum.splits)
  show ?thesis
    apply (rule conjI, rule step)
    apply (rule conjI, rule dead(1))
    apply (rule conjI, rule dead(2))
    apply (rule conjI, rule impI, erule member)
    apply (rule conjI, rule impI, erule absent)
    apply (rule conjI, rule impI, erule own)
    apply (rule conjI, rule len(1))
    apply (rule conjI, rule len(2))
    apply (rule conjI, rule impI, erule prim)
    apply (rule conjI, rule impI, erule throw)
    apply (rule defined)
    done
qed

text \<open>
  The theorem on the payload \<open>{error: "invalid password"}\<close> and the sample engine: the
  key \<open>token\<close> is neither an own nor an inherited member, so \<open>token\<close> and
  \<open>token.value\<close> resolve to \<open>undefined\<close>.
\<close>

theorem resolution_key_by_key_witness:
  "getNestedValue sample_engine (Data error_payload) ''token'' = Inr Undefined
   \<and> getNestedValue sample_engine (Data error_payload) ''token.value'' = Inr Undefined"
proof -
  note t = resolution_key_by_key
    [where rt = sample_engine and k = "''token''" and q = "''value''"
       and fs = "[(''error'', JStr ''invalid password'')]" and a = 0]
  note absent = t [THEN conjunct2, THEN conjunct2, THEN conjunct2, THEN conjunct2,
      THEN conjunct1]
  have "CHR ''.'' \<notin> set ''token''
        \<and> map_of [(''error'', JStr ''invalid password'')] ''token'' = None
        \<and> inherited sample_engine (JObj 0 [(''error'', JStr ''invalid password'')]) ''token''
            = Inr Undefined"
    by (simp add: sample_engine_def)
  with absent
  have "getNestedValue sample_engine (Data (JObj 0 [(''error'', JStr ''invalid password'')]))
          ''token'' = Inr Undefined
        \<and> getNestedValue sample_engine (Data (JObj 0 [(''error'', JStr ''invalid password'')]))
            (''token'' @ ''.'' @ ''value'') = Inr Undefined"
    by (rule mp)
  then show ?thesis by (simp add: error_payload_def)
qed

text \<open>
  The specification has every intermediate value that is not an object resolve to
  \<open>undefined\<close>. The string \<open>"invalid password"\<close> is not an object, and the path
  \<open>error.length\<close> resolves through it to its length, 16.
\<close>

theorem resolution_string_length_counterexample:
  "getNestedValue sample_engine (Data error_payload) ''error''
     = Inr (Data (JStr ''invalid password''))
   \<and> getNestedValue sample_engine (Data error_payload) ''error.length''
     = Inr (Data (JNum (Finite 16)))
   \<and> getNestedValue sample_engine (Data error_payload) ''error.length'' \<noteq> Inr Undefined"
  by code_simp

text \<open>
  Inherited members on the sample engine: the number 5 of \<open>{a: 5}\<close> is not an object
  either, and \<open>a.constructor.name\<close> resolves through it to \<open>"Number"\<close>.
\<close>

lemma resolution_inherited_example:
  "getNestedValue sample_engine (Data count_payload) ''a.constructor.name''
     = Inr (Data (JStr ''Number''))"
  by code_simp

text \<open>
  With an engine whose member reads never throw, resolution returns a value for every
  payload and every path.
\<close>

lemma resolution_total:
  assumes "\<forall>d k. \<exists>w. inherited rt d k = Inr w"
    and "\<forall>obj k. \<exists>w. native_member rt obj k = Inr w"
  shows "\<exists>w. getNestedValue rt v path = Inr w"
proof (cases "getNestedValue rt v path")
  case (Inl e)
  from getNestedValue_throw [OF this] assms show ?thesis by (metis sum.distinct(1) Inl_Inr_False)
next
  case (Inr w)
  then show ?thesis by blast
qed

text \<open>
  The verifier is not total: an object of the payload with an own property \<open>toString\<close>
  has no textual form, and the mode \<open>contains\<close> throws on it.
\<close>

lemma verify_throws_on_own_toString:
  "verifyResponseBodyValue sample_engine
     (Data (JObj 0 [(''a'', JObj 1 [(''toString'', JNum (Finite 1))])])) ''a''
     (Data (JStr ''x'')) (Some Contains) = Inl TypeError"
  by code_simp

section \<open>Properties of the province catalog\<close>

lemma province_keys_all: "k \<in> set province_keys"
  by (cases k) (simp_all add: province_keys_def)

lemma province_code_length: "length (PROVINCE_CODES k) = 2"
  by (cases k) simp_all

lemma find_map_option: "find P (map f xs) = map_option f (find (\<lambda>x. P (f x)) xs)"
  by (induction xs) auto

lemma getProvinceCodeFromName_find:
  "getProvinceCodeFromName n cfg =
     (case find (\<lambda>k. provinces cfg k = n) province_keys of
        None \<Rightarrow> ''''
      | Some k \<Rightarrow> PROVINCE_CODES k)"
proof -
  have "PROVINCE_CODES k \<noteq> []" for k
    using province_code_length [of k] by auto
  then show ?thesis
    by (simp add: getProvinceCodeFromName_def getAllLocalizedProvinces_def
        getLocalizedProvince_def find_map_option split: option.split)
qed

text \<open>
  C8. The inverse lookup returns a string for every name and every configuration. If
  no province has the name, it returns the empty string, which is no province's code
  (every code has two letters). If some province has the name, it returns the code of a
  province with that name: the first one in the order of the catalog. When the names of
  the configuration are pairwise different, the name of a province gives the code of
  that province.
\<close>

theorem province_code_lookup:
  "((\<forall>k. provinces cfg k \<noteq> n) \<longrightarrow> getProvinceCodeFromName n cfg = '''')
   \<and> ((\<exists>k. provinces cfg k = n) \<longrightarrow>
        (\<exists>i < length province_keys.
           provinces cfg (province_keys ! i) = n
           \<and> (\<forall>j < i. provinces cfg (province_keys ! j) \<noteq> n)
           \<and> getProvinceCodeFromName n cfg = PROVINCE_CODES (province_keys ! i)))
   \<and> (inj (provinces cfg) \<longrightarrow>
        getProvinceCodeFromName (provinces cfg k) cfg = PROVINCE_CODES k)
   \<and> length (PROVINCE_CODES k) = 2"
proof -
  let ?P = "\<lambda>m k. provinces cfg k = m"
  have none: "getProvinceCodeFromName n cfg = ''''" if "\<forall>k. provinces cfg k \<noteq> n"
  proof -
    from that have "find (?P n) province_keys = None"
      by (simp add: find_None_iff)
    then show ?thesis by (simp add: getProvinceCodeFromName_find)
  qed
  have found: "\<exists>i < length province_keys.
           provinces cfg (province_keys ! i) = m
           \<and> (\<forall>j < i. provinces cfg (province_keys ! j) \<noteq> m)
           \<and> getProvinceCodeFromName m cfg = PROVINCE_CODES (province_keys ! i)"
    if "\<exists>k. provinces cfg k = m" for m
  proof -
    from that obtain k where "provinces cfg k = m" by blast
    with province_keys_all [of k] have "find (?P m) province_keys \<noteq> None"
      by (auto simp: find_None_iff)
    then obtain k' where f: "find (?P m) province_keys = Some k'" by blast
    then obtain i where "i < length province_keys" "?P m (province_keys ! i)"
      "k' = province_keys ! i" "\<forall>j < i. \<not> ?P m (province_keys ! j)"
      unfolding find_Some_iff by blast
    moreover from f have "getProvinceCodeFromName m cfg = PROVINCE_CODES k'"
      by (simp add: getProvinceCodeFromName_find)
    ultimately show ?thesis by blast
  qed
  have unique: "getProvinceCodeFromName (provinces cfg k) cfg = PROVINCE_CODES k"
    if "inj (provinces cfg)"
  proof -
    have "\<exists>k'. provinces cfg k' = provinces cfg k" by blast
    from found [OF this] obtain i where
      "provinces cfg (province_keys ! i) = provinces cfg k"
      "getProvinceCodeFromName (provinces cfg k) cfg = PROVINCE_CODES (province_keys ! i)"
      by blast
    with that show ?thesis by (simp add: inj_eq)
  qed
  from none found [of n] unique province_code_length [of k] show ?thesis
    by (intro conjI impI)
qed

lemma sample_names_inj: "inj sample_names"
proof (rule injI)
  fix x y
  assume "sample_names x = sample_names y"
  then have "PROVINCE_CODES x = PROVINCE_CODES y"
    by (simp add: sample_names_def)
  then show "x = y"
    by (cases x; cases y; simp)
qed

text \<open>
  The theorem on the sample provinces document, whose names are pairwise different: the
  name of Quebec gives \<open>QC\<close>, and a name that no province has gives the empty string.
\<close>

theorem province_code_lookup_witness:
  "getProvinceCodeFromName ''QC-'' \<lparr> provinces = sample_names \<rparr> = ''QC''
   \<and> getProvinceCodeFromName ''Atlantis'' \<lparr> provinces = sample_names \<rparr> = ''''"
proof -
  let ?cfg = "\<lparr> provinces = sample_names \<rparr>"
  have i: "inj (provinces ?cfg)" using sample_names_inj by simp
  have a: "\<forall>k. provinces ?cfg k \<noteq> ''Atlantis''"
  proof
    fix k show "provinces ?cfg k \<noteq> ''Atlantis''"
      by (cases k) (simp_all add: sample_names_def)
  qed
  note t1 = province_code_lookup [where cfg = ?cfg and k = QUEBEC]
  note t2 = province_code_lookup [where cfg = ?cfg and n = "''Atlantis''"]
  from t1 [THEN conjunct2, THEN conjunct2, THEN conjunct1, THEN mp, OF i]
  have 1: "getProvinceCodeFromName ''QC-'' ?cfg = ''QC''"
    by (simp add: sample_names_def)
  from t2 [THEN conjunct1, THEN mp, OF a]
  have 2: "getProvinceCodeFromName ''Atlantis'' ?cfg = ''''" .
  from 1 2 show ?thesis by (rule conjI)
qed

section \<open>Properties of the locale configuration loader\<close>

lemma ends_with_slash_butlast: "ends_with_slash b \<Longrightarrow> b = butlast b @ ''/''"
  by (simp add: ends_with_slash_def) (metis append_butlast_last_id)

text \<open>
  C1, as the code has it. For every locale whose three documents exist and every
  non-empty base URL, the loader returns a configuration in which: \<open>baseUrl\<close> is the
  base without one trailing slash; \<open>signup\<close> and \<open>login\<close> are that normalized base
  followed by the stored template, whether the template is absolute or not; and
  \<open>termsOfService\<close> is the stored template unchanged when it starts with \<open>http\<close>, and
  otherwise \<open>https://www.nesto.ca\<close> followed by the template, not the supplied base.
\<close>

theorem loaded_urls_resolution:
  assumes "signup_json files l = Some labels"
    and "provinces_json files l = Some names"
    and "urls_json files l = Some t"
    and "b \<noteq> []"
  shows "\<exists>config.
      loadLocaleConfig files l (Some b) = Inr config
      \<and> baseUrl (urls config) = (if ends_with_slash b then butlast b else b)
      \<and> (ends_with_slash b \<longrightarrow> b = baseUrl (urls config) @ ''/'')
      \<and> signup (urls config) = baseUrl (urls config) @ signup t
      \<and> login (urls config) = baseUrl (urls config) @ login t
      \<and> termsOfService (urls config) =
          (if starts_with (termsOfService t) ''http'' then termsOfService t
           else ''https://www.nesto.ca'' @ termsOfService t)"
  using assms ends_with_slash_butlast [of b]
  by (simp add: loadLocaleConfig_def loadJsonFile_def Let_def)

text \<open>
  The theorem on the sample directory, locale \<open>en\<close>, base \<open>https://app.dev.nesto.ca/\<close>.
\<close>

theorem loaded_urls_resolution_witness:
  "\<exists>config.
      loadLocaleConfig sample_files en (Some ''https://app.dev.nesto.ca/'') = Inr config
      \<and> baseUrl (urls config) = ''https://app.dev.nesto.ca''
      \<and> signup (urls config) = ''https://app.dev.nesto.ca/signup''
      \<and> login (urls config) = ''https://app.dev.nesto.ca/login''
      \<and> termsOfService (urls config) = ''https://www.nesto.ca/terms''"
proof -
  let ?t = "\<lparr> signup = ''/signup'', login = ''/login'', termsOfService = ''/terms'' \<rparr>"
  have 1: "signup_json sample_files en = Some ()"
    and 2: "provinces_json sample_files en = Some sample_names"
    and 3: "urls_json sample_files en = Some ?t"
    by (simp_all add: sample_files_def)
  have 4: "''https://app.dev.nesto.ca/'' \<noteq> []" by simp
  from loaded_urls_resolution [OF 1 2 3 4]
  obtain config where
    c: "loadLocaleConfig sample_files en (Some ''https://app.dev.nesto.ca/'') = Inr config"
    and u: "baseUrl (urls config) =
        (if ends_with_slash ''https://app.dev.nesto.ca/''
         then butlast ''https://app.dev.nesto.ca/'' else ''https://app.dev.nesto.ca/'')"
      "signup (urls config) = baseUrl (urls config) @ signup ?t"
      "login (urls config) = baseUrl (urls config) @ login ?t"
      "termsOfService (urls config) =
          (if starts_with (termsOfService ?t) ''http'' then termsOfService ?t
           else ''https://www.nesto.ca'' @ termsOfService ?t)"
    by (elim exE conjE)
  have b: "baseUrl (urls config) = ''https://app.dev.nesto.ca''"
    unfolding u(1) by (simp add: ends_with_slash_def)
  have "signup (urls config) = ''https://app.dev.nesto.ca/signup''"
    "login (urls config) = ''https://app.dev.nesto.ca/login''"
    "termsOfService (urls config) = ''https://www.nesto.ca/terms''"
    unfolding u(2,3,4) b by simp_all
  with c b show ?thesis by (intro exI [of _ config] conjI)
qed

text \<open>
  The specification has every relative template concatenated onto the normalized base.
  With the base \<open>https://app.dev.nesto.ca/\<close> the template \<open>/terms\<close> would resolve to
  \<open>https://app.dev.nesto.ca/terms\<close>; the loader resolves it against
  \<open>https://www.nesto.ca\<close>.
\<close>

theorem terms_url_counterexample:
  "loaded_urls sample_files en (Some ''https://app.dev.nesto.ca/'') =
     Inr \<lparr> signup = ''https://app.dev.nesto.ca/signup'',
           login = ''https://app.dev.nesto.ca/login'',
           termsOfService = ''https://www.nesto.ca/terms'',
           baseUrl = ''https://app.dev.nesto.ca'' \<rparr>
   \<and> spec_resolved_url ''https://app.dev.nesto.ca/'' ''/terms''
       = ''https://app.dev.nesto.ca/terms''
   \<and> ''https://www.nesto.ca/terms'' \<noteq> spec_resolved_url ''https://app.dev.nesto.ca/'' ''/terms''"
  by (simp add: loaded_urls_def loadLocaleConfig_def loadJsonFile_def sample_files_def
      ends_with_slash_def spec_resolved_url_def)

text \<open>
  C9. Two loads for the same locale and base URL, from directories that hold the same
  three documents for that locale, return the same result: the same failure, or
  configurations that are equal, in particular in the four URL fields.
\<close>

theorem load_repeatable:
  assumes "signup_json files1 l = signup_json files2 l"
    and "provinces_json files1 l = provinces_json files2 l"
    and "urls_json files1 l = urls_json files2 l"
  shows "loadLocaleConfig files1 l b = loadLocaleConfig files2 l b
       \<and> loaded_urls files1 l b = loaded_urls files2 l b
       \<and> (loadLocaleConfig files1 l b = Inr config1
            \<and> loadLocaleConfig files2 l b = Inr config2 \<longrightarrow>
          signup (urls config1) = signup (urls config2)
          \<and> login (urls config1) = login (urls config2)
          \<and> termsOfService (urls config1) = termsOfService (urls config2)
          \<and> baseUrl (urls config1) = baseUrl (urls config2))"
proof -
  have same: "loadLocaleConfig files1 l b = loadLocaleConfig files2 l b"
    unfolding loadLocaleConfig_def loadJsonFile_def assms by (rule refl)
  then have "loaded_urls files1 l b = loaded_urls files2 l b"
    by (simp add: loaded_urls_def)
  with same show ?thesis by auto
qed

text \<open>
  The theorem on the sample directory and on a second directory that differs from it
  only in the documents of \<open>fr\<close>: the two loads for \<open>en\<close> return the same URL section.
\<close>

theorem load_repeatable_witness:
  "loaded_urls sample_files en (Some ''https://app.dev.nesto.ca'')
     = loaded_urls
         (sample_files \<lparr> urls_json :=
            (\<lambda>l. if l = en then urls_json sample_files en
                 else Some \<lparr> signup = ''/inscription'', login = ''/connexion'',
                             termsOfService = ''/conditions'' \<rparr>) \<rparr>)
         en (Some ''https://app.dev.nesto.ca'')
   \<and> loaded_urls sample_files en (Some ''https://app.dev.nesto.ca'')
     = Inr \<lparr> signup = ''https://app.dev.nesto.ca/signup'',
             login = ''https://app.dev.nesto.ca/login'',
             termsOfService = ''https://www.nesto.ca/terms'',
             baseUrl = ''https://app.dev.nesto.ca'' \<rparr>"
proof -
  let ?other = "sample_files \<lparr> urls_json :=
            (\<lambda>l. if l = en then urls_json sample_files en
                 else Some \<lparr> signup = ''/inscription'', login = ''/connexion'',
                             termsOfService = ''/conditions'' \<rparr>) \<rparr>"
  have 1: "signup_json sample_files en = signup_json ?other en"
    and 2: "provinces_json sample_files en = provinces_json ?other en"
    and 3: "urls_json sample_files en = urls_json ?other en"
    by simp_all
  note t = load_repeatable [OF 1 2 3, where b = "Some ''https://app.dev.nesto.ca''"]
  note same = t [THEN conjunct2, THEN conjunct1]
  have v: "loaded_urls sample_files en (Some ''https://app.dev.nesto.ca'')
     = Inr \<lparr> signup = ''https://app.dev.nesto.ca/signup'',
             login = ''https://app.dev.nesto.ca/login'',
             termsOfService = ''https://www.nesto.ca/terms'',
             baseUrl = ''https://app.dev.nesto.ca'' \<rparr>"
    by (simp add: loaded_urls_def loadLocaleConfig_def loadJsonFile_def sample_files_def
        ends_with_slash_def)
  from same v show ?thesis by (rule conjI)
qed

end
